theory Spec2Isabelle
  imports Main "HOL-Library.Sublist"
begin

section \<open>Instants, calendar days and ISO-8601 text\<close>

text \<open>
  The services compute with luxon \<open>DateTime\<close> values. A valid \<open>DateTime\<close> is an instant
  (milliseconds since 1970-01-01T00:00:00Z) seen in a zone. Instants are modelled as
  unbounded integers; a zone is modelled by its offset from UTC in minutes, the same at
  every instant (a zone without daylight-saving transitions, such as America/Sao_Paulo
  since 2019, or UTC). An invalid \<open>DateTime\<close> (what \<open>DateTime.fromISO\<close> returns for text it
  cannot read) is \<open>None\<close>.
\<close>

type_synonym instant = int
type_synonym zone = int

definition MS_PER_MINUTE :: int where "MS_PER_MINUTE = 60000"
definition MS_PER_HOUR :: int where "MS_PER_HOUR = 3600000"
definition MS_PER_DAY :: int where "MS_PER_DAY = 86400000"

subsection \<open>The proleptic Gregorian calendar\<close>

definition isLeapYear :: "int \<Rightarrow> bool" where
  "isLeapYear y \<longleftrightarrow> y mod 4 = 0 \<and> (y mod 100 \<noteq> 0 \<or> y mod 400 = 0)"

definition daysInYear :: "int \<Rightarrow> int" where
  "daysInYear y = (if isLeapYear y then 366 else 365)"

definition daysInMonth :: "int \<Rightarrow> int \<Rightarrow> int" where
  "daysInMonth y m =
     (if m = 2 then (if isLeapYear y then 29 else 28)
      else if m = 4 \<or> m = 6 \<or> m = 9 \<or> m = 11 then 30 else 31)"

text \<open>Days from 1970-01-01 to the first of January of year \<open>y\<close>.\<close>

definition daysBeforeYear :: "int \<Rightarrow> int" where
  "daysBeforeYear y =
     365 * (y - 1970) + ((y - 1) div 4 - (y - 1) div 100 + (y - 1) div 400) - 477"

text \<open>Days from the first of January of year \<open>y\<close> to the first of month \<open>m\<close>.\<close>

definition daysBeforeMonth :: "int \<Rightarrow> int \<Rightarrow> int" where
  "daysBeforeMonth y m =
     (if m \<le> 1 then 0 else if m = 2 then 31
      else (if isLeapYear y then 1 else 0) +
        (if m = 3 then 59 else if m = 4 then 90 else if m = 5 then 120
         else if m = 6 then 151 else if m = 7 then 181 else if m = 8 then 212
         else if m = 9 then 243 else if m = 10 then 273 else if m = 11 then 304
         else 334))"

definition daysFromCivil :: "int \<Rightarrow> int \<Rightarrow> int \<Rightarrow> int" where
  "daysFromCivil y m d = daysBeforeYear y + daysBeforeMonth y m + (d - 1)"

definition yearOfDays :: "int \<Rightarrow> int" where
  "yearOfDays z =
     (let y0 = 1970 + (z * 400) div 146097
      in if z < daysBeforeYear y0 then y0 - 1
         else if daysBeforeYear (y0 + 1) \<le> z then y0 + 1
         else y0)"

definition monthOfDayOfYear :: "int \<Rightarrow> int \<Rightarrow> int" where
  "monthOfDayOfYear y n =
     (if n < daysBeforeMonth y 2 then 1 else if n < daysBeforeMonth y 3 then 2
      else if n < daysBeforeMonth y 4 then 3 else if n < daysBeforeMonth y 5 then 4
      else if n < daysBeforeMonth y 6 then 5 else if n < daysBeforeMonth y 7 then 6
      else if n < daysBeforeMonth y 8 then 7 else if n < daysBeforeMonth y 9 then 8
      else if n < daysBeforeMonth y 10 then 9 else if n < daysBeforeMonth y 11 then 10
      else if n < daysBeforeMonth y 12 then 11 else 12)"

definition civilFromDays :: "int \<Rightarrow> int \<times> int \<times> int" where
  "civilFromDays z =
     (let y = yearOfDays z;
          n = z - daysBeforeYear y;
          m = monthOfDayOfYear y n
      in (y, m, n - daysBeforeMonth y m + 1))"

subsection \<open>Decimal fields\<close>

definition digitChar :: "nat \<Rightarrow> char" where
  "digitChar n = char_of (48 + n)"

definition isDigit :: "char \<Rightarrow> bool" where
  "isDigit c \<longleftrightarrow> 48 \<le> (of_char c :: nat) \<and> (of_char c :: nat) \<le> 57"

definition digitVal :: "char \<Rightarrow> nat" where
  "digitVal c = of_char c - 48"

text \<open>\<open>padStart w k\<close>: the decimal digits of \<open>k\<close>, padded with zeros to at least \<open>w\<close> digits.\<close>

fun padStart :: "nat \<Rightarrow> nat \<Rightarrow> string" where
  "padStart 0 k = (if k = 0 then [] else padStart 0 (k div 10) @ [digitChar (k mod 10)])"
| "padStart (Suc w) k = padStart w (k div 10) @ [digitChar (k mod 10)]"

definition digitsVal :: "string \<Rightarrow> nat" where
  "digitsVal s = foldl (\<lambda>a c. 10 * a + digitVal c) 0 s"

text \<open>A non-empty run of decimal digits, read as a number.\<close>

definition parseDigits :: "string \<Rightarrow> nat option" where
  "parseDigits s = (if s \<noteq> [] \<and> list_all isDigit s then Some (digitsVal s) else None)"

text \<open>Exactly \<open>n\<close> decimal digits at the front of the text, and the rest of the text.\<close>

definition takeDigits :: "nat \<Rightarrow> string \<Rightarrow> (nat \<times> string) option" where
  "takeDigits n s =
     (if n \<le> length s \<and> 0 < n \<and> list_all isDigit (take n s)
      then Some (digitsVal (take n s), drop n s) else None)"

subsection \<open>\<open>toUTC().toISO()\<close>\<close>

text \<open>
  luxon prints years 0 to 9999 with four digits and any other year with a sign and six
  digits. Instants are unbounded here, so a year that needs more than six digits (beyond
  the range of a JavaScript date) is printed, and read back, with all its digits.
\<close>

definition formatYear :: "int \<Rightarrow> string" where
  "formatYear y =
     (if 0 \<le> y \<and> y \<le> 9999 then padStart 4 (nat y)
      else (if y < 0 then ''-'' else ''+'') @ padStart 6 (nat \<bar>y\<bar>))"

definition toISO :: "instant \<Rightarrow> string" where
  "toISO ts =
     (let r = ts mod MS_PER_DAY in
      case civilFromDays (ts div MS_PER_DAY) of (y, m, d) \<Rightarrow>
        formatYear y @ ''-'' @ padStart 2 (nat m) @ ''-'' @ padStart 2 (nat d) @ ''T'' @
        padStart 2 (nat (r div MS_PER_HOUR)) @ '':'' @
        padStart 2 (nat (r mod MS_PER_HOUR div MS_PER_MINUTE)) @ '':'' @
        padStart 2 (nat (r mod MS_PER_MINUTE div 1000)) @ ''.'' @
        padStart 3 (nat (r mod 1000)) @ ''Z'')"

subsection \<open>\<open>DateTime.fromISO\<close>\<close>

text \<open>
  The texts read are the extended ISO-8601 forms
  \<open>YYYY-MM-DD\<close> and \<open>YYYY-MM-DDTHH:mm[:ss[.fraction]][Z|\<plusminus>HH[[:]mm]]\<close>
  (the forms the store, the clients and \<open>toISO\<close> produce). Any other text gives \<open>None\<close>,
  the invalid \<open>DateTime\<close>. A text without an offset is a wall-clock time in the zone passed
  as \<open>{zone: ...}\<close>.
\<close>

definition expectChar :: "char \<Rightarrow> string \<Rightarrow> string option" where
  "expectChar c s = (case s of [] \<Rightarrow> None | x # r \<Rightarrow> if x = c then Some r else None)"

definition parseYear :: "string \<Rightarrow> (int \<times> string) option" where
  "parseYear s =
     (case s of
        [] \<Rightarrow> None
      | c # r \<Rightarrow>
          if c = CHR ''+'' \<or> c = CHR ''-'' then
            (let ds = takeWhile isDigit r in
             if length ds < 6 then None
             else Some ((if c = CHR ''-'' then - int (digitsVal ds) else int (digitsVal ds)),
                        dropWhile isDigit r))
          else (case takeDigits 4 s of
                  None \<Rightarrow> None
                | Some (n, r') \<Rightarrow> Some (int n, r')))"

text \<open>Seconds and milliseconds after \<open>HH:mm\<close>; a fraction keeps its first three digits.\<close>

definition parseFraction :: "string \<Rightarrow> (int \<times> string) option" where
  "parseFraction s =
     (case s of
        [] \<Rightarrow> Some (0, s)
      | c # r \<Rightarrow>
          if c = CHR ''.'' \<or> c = CHR '','' then
            (let ds = takeWhile isDigit r in
             if ds = [] then None
             else Some (int (digitsVal (take 3 (ds @ ''000''))), dropWhile isDigit r))
          else Some (0, s))"

definition parseSeconds :: "string \<Rightarrow> (int \<times> int \<times> string) option" where
  "parseSeconds s =
     (case s of
        [] \<Rightarrow> Some (0, 0, s)
      | c # r \<Rightarrow>
          if c = CHR '':'' then
            (case takeDigits 2 r of
               None \<Rightarrow> None
             | Some (sec, r') \<Rightarrow>
                 (case parseFraction r' of
                    None \<Rightarrow> None
                  | Some (ms, r'') \<Rightarrow> Some (int sec, ms, r'')))
          else Some (0, 0, s))"

text \<open>The offset in minutes; the whole rest of the text must be the offset.\<close>

definition parseOffset :: "zone \<Rightarrow> string \<Rightarrow> int option" where
  "parseOffset z s =
     (case s of
        [] \<Rightarrow> Some z
      | c # r \<Rightarrow>
          if c = CHR ''Z'' then (if r = [] then Some 0 else None)
          else if c = CHR ''+'' \<or> c = CHR ''-'' then
            (case takeDigits 2 r of
               None \<Rightarrow> None
             | Some (hh, r') \<Rightarrow>
                 (case (if r' = [] then Some (0, [])
                        else takeDigits 2 (case r' of x # t \<Rightarrow> if x = CHR '':'' then t else r'
                                           | [] \<Rightarrow> [])) of
                    None \<Rightarrow> None
                  | Some (mm, r'') \<Rightarrow>
                      if r'' \<noteq> [] then None
                      else if c = CHR ''-'' then Some (- (int hh * 60 + int mm))
                      else Some (int hh * 60 + int mm)))
          else None)"

text \<open>The time of day in milliseconds and the offset, from the text after the date.\<close>

definition parseTime :: "zone \<Rightarrow> string \<Rightarrow> (int \<times> int) option" where
  "parseTime z s =
     (case s of
        [] \<Rightarrow> Some (0, z)
      | c # r \<Rightarrow>
          if c \<noteq> CHR ''T'' then None
          else
            (case takeDigits 2 r of
               None \<Rightarrow> None
             | Some (h, r1) \<Rightarrow>
            (case expectChar CHR '':'' r1 of
               None \<Rightarrow> None
             | Some r2 \<Rightarrow>
            (case takeDigits 2 r2 of
               None \<Rightarrow> None
             | Some (mi, r3) \<Rightarrow>
            (case parseSeconds r3 of
               None \<Rightarrow> None
             | Some (sec, ms, r4) \<Rightarrow>
            (case parseOffset z r4 of
               None \<Rightarrow> None
             | Some off \<Rightarrow>
                 if (int h \<le> 23 \<or> (h = 24 \<and> mi = 0 \<and> sec = 0 \<and> ms = 0))
                    \<and> int mi \<le> 59 \<and> sec \<le> 59
                 then Some (int h * MS_PER_HOUR + int mi * MS_PER_MINUTE + sec * 1000 + ms, off)
                 else None))))))"

definition fromISO :: "zone \<Rightarrow> string \<Rightarrow> instant option" where
  "fromISO z s =
     (case parseYear s of
        None \<Rightarrow> None
      | Some (y, r1) \<Rightarrow>
     (case expectChar CHR ''-'' r1 of
        None \<Rightarrow> None
      | Some r2 \<Rightarrow>
     (case takeDigits 2 r2 of
        None \<Rightarrow> None
      | Some (m, r3) \<Rightarrow>
     (case expectChar CHR ''-'' r3 of
        None \<Rightarrow> None
      | Some r4 \<Rightarrow>
     (case takeDigits 2 r4 of
        None \<Rightarrow> None
      | Some (d, r5) \<Rightarrow>
     (case parseTime z r5 of
        None \<Rightarrow> None
      | Some (tod, off) \<Rightarrow>
          if 1 \<le> m \<and> m \<le> 12 \<and> 1 \<le> d \<and> int d \<le> daysInMonth y (int m)
          then Some (daysFromCivil y (int m) (int d) * MS_PER_DAY + tod - off * MS_PER_MINUTE)
          else None))))))"

subsection \<open>Fields of a \<open>DateTime\<close> in a zone\<close>

definition localMillis :: "zone \<Rightarrow> instant \<Rightarrow> int" where
  "localMillis z t = t + z * MS_PER_MINUTE"

definition startOfDay :: "zone \<Rightarrow> instant \<Rightarrow> instant" where
  "startOfDay z t = t - localMillis z t mod MS_PER_DAY"

definition hour :: "zone \<Rightarrow> instant \<Rightarrow> int" where
  "hour z t = localMillis z t mod MS_PER_DAY div MS_PER_HOUR"

definition minute :: "zone \<Rightarrow> instant \<Rightarrow> int" where
  "minute z t = localMillis z t mod MS_PER_HOUR div MS_PER_MINUTE"

text \<open>luxon's weekday: 1 is Monday, 7 is Sunday (1970-01-01 was a Thursday).\<close>

definition weekday :: "zone \<Rightarrow> instant \<Rightarrow> int" where
  "weekday z t = (localMillis z t div MS_PER_DAY + 3) mod 7 + 1"

definition plusMinutes :: "instant \<Rightarrow> int \<Rightarrow> instant" where
  "plusMinutes t n = t + n * MS_PER_MINUTE"

definition plusDays :: "instant \<Rightarrow> int \<Rightarrow> instant" where
  "plusDays t n = t + n * MS_PER_DAY"

text \<open>
  \<open>dt.set({hour: h, minute: m, second: 0, millisecond: 0})\<close>. luxon's \<open>set\<close> does not
  check ranges: the fields go through \<open>Date.UTC\<close>, which carries an hour of 24 or more
  into the next day.
\<close>

definition setHourMinute :: "zone \<Rightarrow> instant \<Rightarrow> int \<Rightarrow> int \<Rightarrow> instant" where
  "setHourMinute z t h m = startOfDay z t + h * MS_PER_HOUR + m * MS_PER_MINUTE"

text \<open>\<open>a.hasSame(b, 'day')\<close>, both in zone \<open>z\<close>.\<close>

definition hasSameDay :: "zone \<Rightarrow> instant \<Rightarrow> instant \<Rightarrow> bool" where
  "hasSameDay z a b \<longleftrightarrow> startOfDay z a \<le> b \<and> b \<le> startOfDay z a + MS_PER_DAY - 1"

section \<open>Shared data: time ranges, slots, windows\<close>

text \<open>
  \<open>BaseSlot\<close> and \<open>Window\<close> of \<open>slot-windows.util.ts\<close>, \<open>Slot\<close> of \<open>slot.service.ts\<close> and the
  availability rows all carry \<open>start_time\<close> and \<open>end_time\<close>; the records share these two
  fields. The field \<open>id\<close> is written \<open>id'\<close>.
\<close>

record 'a TimeRangeOf =
  start_time :: 'a
  end_time :: 'a

type_synonym TimeRange = "string TimeRangeOf"

record BaseSlot = "string TimeRangeOf" +
  id' :: string
  professional_id :: string
  is_available :: bool

record 'a WindowOf = "'a TimeRangeOf" +
  slot_ids :: "string list"

type_synonym Window = "string WindowOf"

text \<open>
  The windows that the builder returns are declared as \<open>Window\<close>, but luxon's \<open>toISO\<close>
  returns \<open>null\<close> for an invalid \<open>DateTime\<close>: their texts are nullable.
\<close>

type_synonym BuiltWindow = "string option WindowOf"

record BuildParams =
  baseSlots :: "BaseSlot list"
  durationMinutes :: int
  slotStepMinutes :: int
  now :: string
  closingTime :: string
  timezone :: zone
  minLeadMinutes :: "int option"

datatype error =
    TypeError
  | InvalidArgumentError
  | ProfessionalNotFound
  | FailedToGetSlots
  | DuplicateKey
  | InvalidTimestamp

subsection \<open>JavaScript pieces\<close>

text \<open>
  Minutes are integers. \<open>Math.ceil(a / b)\<close> on integers is a number, an infinity or \<open>NaN\<close>.
\<close>

datatype jsnumber = Finite int | PosInfinity | NegInfinity | NaN

definition ceilDiv :: "int \<Rightarrow> int \<Rightarrow> jsnumber" where
  "ceilDiv a b =
     (if b = 0 then (if 0 < a then PosInfinity else if a < 0 then NegInfinity else NaN)
      else Finite (- ((- a) div b)))"

text \<open>\<open>xs.slice(start, end)\<close>, negative indices counting from the end.\<close>

definition jsSlice :: "'a list \<Rightarrow> int \<Rightarrow> int \<Rightarrow> 'a list" where
  "jsSlice xs start end =
     (let len = int (length xs);
          k = (if start < 0 then max (len + start) 0 else min start len);
          e = (if end < 0 then max (len + end) 0 else min end len)
      in take (nat (e - k)) (drop (nat k) xs))"

text \<open>\<open>text.split(c)\<close>.\<close>

fun splitOn :: "char \<Rightarrow> string \<Rightarrow> string list" where
  "splitOn c [] = [[]]"
| "splitOn c (x # xs) =
     (if x = c then [] # splitOn c xs
      else (case splitOn c xs of [] \<Rightarrow> [[x]] | p # ps \<Rightarrow> (x # p) # ps))"

subsection \<open>\<open>Number(text)\<close>\<close>

text \<open>
  \<open>Number\<close> reads a text as ECMAScript's \<open>StringToNumber\<close> does: white space around the
  literal is dropped, the empty text is 0, and the literal is a decimal literal with an
  optional sign, fraction and exponent, \<open>Infinity\<close> with an optional sign, or a binary,
  octal or hexadecimal integer without sign; any other text is \<open>NaN\<close>. The value is
  rounded to a double (to nearest, ties to even). The only reader of these numbers is
  \<open>Date.UTC\<close> inside luxon's \<open>set\<close>, which takes the integer part of a finite number
  (\<open>ToIntegerOrInfinity\<close>): \<open>Finite k\<close> stands for a finite number whose integer part is
  \<open>k\<close>. Texts are made of characters below 256.
\<close>

definition isWhiteSpace :: "char \<Rightarrow> bool" where
  "isWhiteSpace c \<longleftrightarrow>
     (of_char c :: nat) \<in> {9, 10, 11, 12, 13, 32, 160}"

definition trimWhiteSpace :: "string \<Rightarrow> string" where
  "trimWhiteSpace s = rev (dropWhile isWhiteSpace (rev (dropWhile isWhiteSpace s)))"

text \<open>The number of binary digits of a positive integer.\<close>

function bitLength :: "int \<Rightarrow> int" where
  "bitLength n = (if n \<le> 0 then 0 else 1 + bitLength (n div 2))"
  by pat_completeness auto
termination
  by (relation "measure nat") auto

declare bitLength.simps [simp del]

text \<open>
  The double nearest to \<open>num / den\<close> (both positive), cut to its integer part:
  \<open>e\<close> is the binary exponent of the quotient, \<open>u\<close> the exponent of the last place of a
  double of that size, \<open>q\<close> the quotient in units of the last place, rounded.
\<close>

definition roundedIntegerPart :: "int \<Rightarrow> int \<Rightarrow> jsnumber" where
  "roundedIntegerPart num den =
     (let d = bitLength num - bitLength den;
          e = (if (if 0 \<le> d then den * 2 ^ nat d \<le> num else den \<le> num * 2 ^ nat (- d))
               then d else d - 1);
          u = max (e - 52) (- 1074);
          a = (if 0 \<le> u then num else num * 2 ^ nat (- u));
          b = (if 0 \<le> u then den * 2 ^ nat u else den);
          q0 = a div b;
          r = a mod b;
          q = (if 2 * r < b then q0 else if b < 2 * r then q0 + 1
               else if even q0 then q0 else q0 + 1)
      in if 972 \<le> u \<or> (u = 971 \<and> q = 2 ^ 53) then PosInfinity
         else if 0 \<le> u then Finite (q * 2 ^ nat u)
         else Finite (q div 2 ^ nat (- u)))"

definition magnitude :: "int \<Rightarrow> int \<Rightarrow> jsnumber" where
  "magnitude mantissa k =
     (if mantissa = 0 then Finite 0
      else if 0 \<le> k then roundedIntegerPart (mantissa * 10 ^ nat k) 1
      else roundedIntegerPart mantissa (10 ^ nat (- k)))"

definition negate :: "jsnumber \<Rightarrow> jsnumber" where
  "negate x =
     (case x of Finite k \<Rightarrow> Finite (- k) | PosInfinity \<Rightarrow> NegInfinity
      | NegInfinity \<Rightarrow> PosInfinity | NaN \<Rightarrow> NaN)"

text \<open>\<open>SignedInteger\<close> of an exponent part: digits with an optional sign.\<close>

definition signedInteger :: "string \<Rightarrow> int option" where
  "signedInteger s =
     (case s of
        [] \<Rightarrow> None
      | c # cs \<Rightarrow>
          if c = CHR ''+'' then map_option int (parseDigits cs)
          else if c = CHR ''-'' then map_option (\<lambda>n. - int n) (parseDigits cs)
          else map_option int (parseDigits s))"

text \<open>
  \<open>StrUnsignedDecimalLiteral\<close>: \<open>Infinity\<close>, or digits with an optional fraction and
  exponent, with a digit before or after the point.
\<close>

definition unsignedDecimal :: "string \<Rightarrow> jsnumber" where
  "unsignedDecimal s =
     (if s = ''Infinity'' then PosInfinity
      else
        (let intPart = takeWhile isDigit s;
             r1 = dropWhile isDigit s;
             hasPoint = (r1 \<noteq> [] \<and> hd r1 = CHR ''.'');
             fracPart = (if hasPoint then takeWhile isDigit (tl r1) else []);
             r2 = (if hasPoint then dropWhile isDigit (tl r1) else r1);
             exponent =
               (if r2 = [] then Some 0
                else if hd r2 = CHR ''e'' \<or> hd r2 = CHR ''E'' then signedInteger (tl r2)
                else None)
         in if intPart = [] \<and> fracPart = [] then NaN
            else
              (case exponent of
                 None \<Rightarrow> NaN
               | Some x \<Rightarrow>
                   magnitude (foldl (\<lambda>a c. 10 * a + int (digitVal c)) 0 (intPart @ fracPart))
                     (x - int (length fracPart)))))"

text \<open>Digits in the base 2, 8 or 16, read as a number.\<close>

definition digitIn :: "int \<Rightarrow> char \<Rightarrow> int option" where
  "digitIn base c =
     (let n = (of_char c :: int);
          v = (if 48 \<le> n \<and> n \<le> 57 then Some (n - 48)
               else if 65 \<le> n \<and> n \<le> 70 then Some (n - 55)
               else if 97 \<le> n \<and> n \<le> 102 then Some (n - 87)
               else None)
      in case v of None \<Rightarrow> None | Some k \<Rightarrow> if k < base then Some k else None)"

definition digitsIn :: "int \<Rightarrow> string \<Rightarrow> jsnumber" where
  "digitsIn base s =
     (if s \<noteq> [] \<and> list_all (\<lambda>c. digitIn base c \<noteq> None) s
      then magnitude (foldl (\<lambda>a c. base * a + the (digitIn base c)) 0 s) 0
      else NaN)"

definition jsNumber :: "string \<Rightarrow> jsnumber" where
  "jsNumber text =
     (let s = trimWhiteSpace text in
      if s = [] then Finite 0
      else if take 2 s = ''0x'' \<or> take 2 s = ''0X'' then digitsIn 16 (drop 2 s)
      else if take 2 s = ''0o'' \<or> take 2 s = ''0O'' then digitsIn 8 (drop 2 s)
      else if take 2 s = ''0b'' \<or> take 2 s = ''0B'' then digitsIn 2 (drop 2 s)
      else if hd s = CHR ''+'' then unsignedDecimal (tl s)
      else if hd s = CHR ''-'' then negate (unsignedDecimal (tl s))
      else unsignedDecimal s)"

subsection \<open>A time of day set on a \<open>DateTime\<close>\<close>

text \<open>
  A \<open>DateTime\<close> is an instant, or invalid (\<open>None\<close>). Comparisons with an invalid \<open>DateTime\<close>
  compare \<open>NaN\<close> and are false.
\<close>

definition before :: "instant option \<Rightarrow> instant option \<Rightarrow> bool" where
  "before a b \<longleftrightarrow> (case a of None \<Rightarrow> False | Some x \<Rightarrow> (case b of None \<Rightarrow> False | Some y \<Rightarrow> x < y))"

text \<open>
  \<open>const [h, m] = text.split(':').map(Number)\<close>: the hour and, when the text has a second
  part, the minute (\<open>undefined\<close> otherwise).
\<close>

definition parseClock :: "string \<Rightarrow> jsnumber \<times> jsnumber option" where
  "parseClock text =
     (let parts = splitOn CHR '':'' text
      in (jsNumber (hd parts),
          (case tl parts of [] \<Rightarrow> None | mm # _ \<Rightarrow> Some (jsNumber mm))))"

text \<open>
  \<open>dt.set({hour: h, minute: m, second: 0, millisecond: 0})\<close> with the numbers of
  \<open>parseClock\<close>. On an invalid \<open>DateTime\<close> luxon's \<open>set\<close> returns it as it is. Otherwise it
  throws \<open>InvalidArgumentError\<close> for a \<open>NaN\<close> unit and leaves a unit that is \<open>undefined\<close>
  as it is; an infinite unit makes \<open>Date.UTC\<close> return \<open>NaN\<close>, and the result is invalid.
\<close>

definition setClock :: "zone \<Rightarrow> instant option \<Rightarrow> string \<Rightarrow> error + instant option" where
  "setClock z dt text =
     (case dt of
        None \<Rightarrow> Inr None
      | Some t \<Rightarrow>
          (case parseClock text of
             (h, m) \<Rightarrow>
               if h = NaN \<or> m = Some NaN then Inl InvalidArgumentError
               else
                 (case h of
                    Finite hh \<Rightarrow>
                      (case m of
                         None \<Rightarrow> Inr (Some (setHourMinute z t hh (minute z t)))
                       | Some (Finite mm) \<Rightarrow> Inr (Some (setHourMinute z t hh mm))
                       | Some _ \<Rightarrow> Inr None)
                  | _ \<Rightarrow> Inr None)))"

section \<open>The JavaScript engine\<close>

text \<open>
  Line 29 of \<open>slot-windows.util.ts\<close> sorts a copy of the base slots with the comparator
  \<open>new Date(a.start_time).getTime() - new Date(b.start_time).getTime()\<close>. Which texts
  \<open>Date\<close> reads beyond the ECMAScript date-time format is left to the engine, and so is
  the order in which \<open>sort\<close> leaves the array when the comparator returns \<open>NaN\<close> (for a text
  that is not a date). The engine is a parameter of the builder: \<open>dateParse\<close> is
  \<open>new Date(text).getTime()\<close>, with \<open>None\<close> for \<open>NaN\<close>; \<open>sortOrder\<close> gives, for the times of
  the elements of an array, the indices of the elements in the order in which \<open>sort\<close>
  with that comparator leaves them (the comparator sees the times only).
\<close>

record Engine =
  dateParse :: "string \<Rightarrow> instant option"
  sortOrder :: "instant option list \<Rightarrow> nat list"

text \<open>ECMAScript has \<open>sort\<close> return the elements of the array, each once.\<close>

definition conforming :: "Engine \<Rightarrow> bool" where
  "conforming engine \<longleftrightarrow>
     (\<forall>ts. length (sortOrder engine ts) = length ts
        \<and> set (sortOrder engine ts) = {..<length ts})"

text \<open>\<open>[...baseSlots].sort(...)\<close>: the sorted copy.\<close>

definition sortedCopy :: "Engine \<Rightarrow> BaseSlot list \<Rightarrow> BaseSlot list" where
  "sortedCopy engine slots =
     map ((!) slots) (sortOrder engine (map (\<lambda>s. dateParse engine (start_time s)) slots))"

text \<open>
  An engine for the examples: its \<open>Date\<close> reads the texts that \<open>fromISO\<close> reads, in UTC,
  and its \<open>sort\<close> is a stable insertion sort, for which a comparator's \<open>NaN\<close> counts as 0.
\<close>

definition compareTimes :: "instant option list \<Rightarrow> nat \<Rightarrow> nat \<Rightarrow> int" where
  "compareTimes ts i j =
     (case ts ! i of
        None \<Rightarrow> 0
      | Some a \<Rightarrow> (case ts ! j of None \<Rightarrow> 0 | Some b \<Rightarrow> a - b))"

fun insertIndex :: "instant option list \<Rightarrow> nat \<Rightarrow> nat list \<Rightarrow> nat list" where
  "insertIndex ts i [] = [i]"
| "insertIndex ts i (j # js) =
     (if compareTimes ts i j \<le> 0 then i # j # js else j # insertIndex ts i js)"

definition insertionOrder :: "instant option list \<Rightarrow> nat list" where
  "insertionOrder ts = foldr (insertIndex ts) [0..<length ts] []"

definition referenceEngine :: Engine where
  "referenceEngine = \<lparr>dateParse = fromISO 0, sortOrder = insertionOrder\<rparr>"

section \<open>The window builder (\<open>buildServiceWindowsFromBaseSlots\<close>)\<close>

text \<open>
  Each slot of the group starts \<open>slotStepMinutes\<close> after the one before (lines 76 to 92).
  The difference with an invalid \<open>DateTime\<close> is \<open>NaN\<close>, which is not the step.
\<close>

fun isConsecutive :: "int \<Rightarrow> instant option list \<Rightarrow> bool" where
  "isConsecutive step (a # b # rest) \<longleftrightarrow>
     (case a of
        None \<Rightarrow> False
      | Some prevStart \<Rightarrow>
          (case b of
             None \<Rightarrow> False
           | Some currStart \<Rightarrow> currStart - prevStart = step * MS_PER_MINUTE))
     \<and> isConsecutive step (b # rest)"
| "isConsecutive step _ \<longleftrightarrow> True"

text \<open>
  The lead-time check of the builder (lines 107 to 141) for a valid \<open>windowStart\<close>: \<open>True\<close>
  when the window is rejected. An invalid \<open>now\<close> makes \<open>hasSame\<close> and every comparison
  false, so nothing is rejected.
\<close>

definition roundUpToStep :: "int \<Rightarrow> int \<Rightarrow> int" where
  "roundUpToStep n step = - ((- n) div step) * step"

definition leadTimeRejects :: "zone \<Rightarrow> int \<Rightarrow> instant option \<Rightarrow> instant \<Rightarrow> bool" where
  "leadTimeRejects z step nowWithLead windowStart =
     (case nowWithLead of
        None \<Rightarrow> False
      | Some nwl \<Rightarrow>
          if hasSameDay z windowStart nwl then
            (let nowTotalMins = hour z nwl * 60 + minute z nwl;
                 rounded = roundUpToStep nowTotalMins step;
                 roundedDt = plusMinutes (startOfDay z nwl) rounded
             in windowStart < roundedDt)
          else windowStart < nwl)"

definition minLead :: "BuildParams \<Rightarrow> int" where
  "minLead p = (case minLeadMinutes p of None \<Rightarrow> 0 | Some m \<Rightarrow> m)"

text \<open>
  One turn of the loop (lines 55 to 163) on the group \<open>slots.slice(i, i + needed)\<close>:
  an exception, a rejection (\<open>continue\<close>) or the window pushed. With an invalid
  \<open>windowStart\<close> (the \<open>start_time\<close> of the first slot is not read by \<open>fromISO\<close>) \<open>hasSame\<close> and
  the comparisons of the lead time and of the closing time are false, \<open>set\<close> does not
  throw, and the window is pushed with \<open>null\<close> times.
\<close>

definition windowOfGroup :: "BuildParams \<Rightarrow> BaseSlot list \<Rightarrow> error + BuiltWindow option" where
  "windowOfGroup p grp =
     (if list_ex (\<lambda>s. \<not> is_available s) grp then Inr None
      else if \<not> isConsecutive (slotStepMinutes p) (map (\<lambda>s. fromISO 0 (start_time s)) grp)
      then Inr None
      else
        (case grp of
           [] \<Rightarrow> Inl TypeError
         | g0 # _ \<Rightarrow>
             (let windowStart = fromISO 0 (start_time g0);
                  windowEnd = map_option (\<lambda>t. plusMinutes t (durationMinutes p)) windowStart;
                  nowWithLead = map_option (\<lambda>n. plusMinutes n (minLead p))
                                  (fromISO (timezone p) (now p))
              in if (case windowStart of
                       None \<Rightarrow> False
                     | Some t \<Rightarrow> leadTimeRejects (timezone p) (slotStepMinutes p) nowWithLead t)
                 then Inr None
                 else
                   (case setClock (timezone p) windowStart (closingTime p) of
                      Inl e \<Rightarrow> Inl e
                    | Inr closeDt \<Rightarrow>
                        if before closeDt windowEnd then Inr None
                        else Inr (Some \<lparr>start_time = map_option toISO windowStart,
                                        end_time = map_option toISO windowEnd,
                                        slot_ids = map id' grp\<rparr>)))))"

function windowLoop ::
  "BuildParams \<Rightarrow> BaseSlot list \<Rightarrow> int \<Rightarrow> int \<Rightarrow> BuiltWindow list \<Rightarrow> error + BuiltWindow list"
where
  "windowLoop p slots needed i windows =
     (if i \<le> int (length slots) - needed then
        (case windowOfGroup p (jsSlice slots i (i + needed)) of
           Inl e \<Rightarrow> Inl e
         | Inr None \<Rightarrow> windowLoop p slots needed (i + 1) windows
         | Inr (Some w) \<Rightarrow> windowLoop p slots needed (i + 1) (windows @ [w]))
      else Inr windows)"
  by pat_completeness auto
termination
  by (relation "measure (\<lambda>(p, slots, needed, i, windows). nat (int (length slots) - needed - i + 1))")
    auto

text \<open>
  The function after the sort (lines 31 to 174). With \<open>needed\<close> infinite or \<open>NaN\<close> the loop
  condition is false at once, except for \<open>-Infinity\<close>, where the first group is empty and
  \<open>group[0].start_time\<close> throws.
\<close>

definition buildFromSorted :: "BuildParams \<Rightarrow> BaseSlot list \<Rightarrow> error + BuiltWindow list" where
  "buildFromSorted p slots =
     (if slots = [] then Inr []
      else
        (case ceilDiv (durationMinutes p) (slotStepMinutes p) of
           Finite needed \<Rightarrow> windowLoop p slots needed 0 []
         | NegInfinity \<Rightarrow> Inl TypeError
         | PosInfinity \<Rightarrow> Inr []
         | NaN \<Rightarrow> Inr []))"

definition buildServiceWindowsFromBaseSlots ::
  "Engine \<Rightarrow> BuildParams \<Rightarrow> error + BuiltWindow list"
where
  "buildServiceWindowsFromBaseSlots engine p =
     buildFromSorted p (sortedCopy engine (baseSlots p))"

section \<open>The builder on a heap\<close>

text \<open>
  The caller's \<open>baseSlots\<close> is a reference to an array of references to \<open>BaseSlot\<close> objects.
  A heap holds the arrays of slots and the slot objects; a reference is an index, and a new
  array takes the next index. The groups (\<open>slots.slice\<close>), the windows and the debug
  entries of the builder are fresh values that hold no array of the caller; the function
  has no assignment to a field of a slot.
\<close>

type_synonym ref = nat

record Heap =
  slotArrays :: "ref list list"
  slotObjects :: "BaseSlot list"

text \<open>\<open>[...xs]\<close>: a new array with the elements of \<open>xs\<close>; the objects are shared.\<close>

definition spread :: "ref \<Rightarrow> Heap \<Rightarrow> ref \<times> Heap" where
  "spread a h = (length (slotArrays h), h\<lparr>slotArrays := slotArrays h @ [slotArrays h ! a]\<rparr>)"

text \<open>The slots that an array holds.\<close>

definition slotsOf :: "Heap \<Rightarrow> ref \<Rightarrow> BaseSlot list" where
  "slotsOf h a = map ((!) (slotObjects h)) (slotArrays h ! a)"

text \<open>
  \<open>xs.sort(cmp)\<close> sorts the array \<open>xs\<close> in place, with the comparator of line 29: the
  references are left in the order that the engine gives for the times of their slots.
\<close>

definition sortInPlace :: "Engine \<Rightarrow> ref \<Rightarrow> Heap \<Rightarrow> Heap" where
  "sortInPlace engine a h =
     h\<lparr>slotArrays := (slotArrays h)[a :=
         map ((!) (slotArrays h ! a))
           (sortOrder engine (map (\<lambda>s. dateParse engine (start_time s)) (slotsOf h a)))]\<rparr>"

text \<open>
  \<open>buildServiceWindowsFromBaseSlots\<close> called with the reference \<open>baseSlots\<close> (the field
  \<open>baseSlots\<close> of \<open>p\<close> is not read): the result and the heap after the call. After the sort
  the function reads the slots of the copy.
\<close>

definition buildServiceWindowsOnHeap ::
  "Engine \<Rightarrow> BuildParams \<Rightarrow> ref \<Rightarrow> Heap \<Rightarrow> (error + BuiltWindow list) \<times> Heap"
where
  "buildServiceWindowsOnHeap engine p baseSlotsRef h =
     (case spread baseSlotsRef h of
        (slots, h1) \<Rightarrow>
          (let h2 = sortInPlace engine slots h1
           in (buildFromSorted p (slotsOf h2 slots), h2)))"

section \<open>Generating slots from the weekly availabilities (\<open>slot.service.ts\<close>)\<close>

text \<open>
  An availability row: \<open>day_of_week\<close> (0 is Sunday) and the wall-clock texts \<open>start_time\<close>
  and \<open>end_time\<close>. \<open>Slot\<close> is a row of the \<open>slots\<close> table as the services see it. The rows
  that \<open>availabilityService.getAllAvailabilities\<close> returns are an input of the generators,
  and so is the instant that \<open>DateTime.now()\<close> returns.
\<close>

record Availability = "string TimeRangeOf" +
  day_of_week :: int

record Slot = BaseSlot +
  service_id :: "string option"

record GetSlotsParams =
  professionalId :: string
  serviceId :: "string option"
  from' :: string
  to' :: string
  companyId :: string

text \<open>\<open>text || null\<close> for an optional text: the empty text is falsy.\<close>

definition orNull :: "string option \<Rightarrow> string option" where
  "orNull v = (case v of None \<Rightarrow> None | Some s \<Rightarrow> if s = [] then None else Some s)"

text \<open>luxon's weekday 7 (Sunday) is day 0 of the availabilities (lines 152 to 154).\<close>

definition dayOfWeek :: "zone \<Rightarrow> instant \<Rightarrow> int" where
  "dayOfWeek z t = (if weekday z t = 7 then 0 else weekday z t)"

definition SAO_PAULO :: zone where "SAO_PAULO = - 180"

subsection \<open>\<open>generateSlotsFromAvailabilities\<close>: virtual slots of 15 minutes\<close>

text \<open>The inner loop (lines 185 to 214), from \<open>slotStart\<close> to \<open>dayEnd\<close> in steps of 15 minutes.\<close>

function virtualSlotLoop ::
  "GetSlotsParams \<Rightarrow> instant \<Rightarrow> instant \<Rightarrow> instant \<Rightarrow> instant \<Rightarrow> Slot list \<Rightarrow> Slot list"
where
  "virtualSlotLoop params fromDt toDt dayEnd slotStart generatedSlots =
     (if slotStart < dayEnd then
        (let slotEnd = plusMinutes slotStart 15 in
         virtualSlotLoop params fromDt toDt dayEnd slotEnd
           (if fromDt \<le> slotStart \<and> slotStart \<le> toDt
            then generatedSlots @
              [\<lparr>start_time = toISO slotStart, end_time = toISO slotEnd,
                id' = ''virtual-'' @ toISO slotStart,
                professional_id = professionalId params, is_available = True,
                service_id = orNull (serviceId params)\<rparr>]
            else generatedSlots))
      else generatedSlots)"
  by pat_completeness auto
termination
  by (relation "measure (\<lambda>(params, fromDt, toDt, dayEnd, slotStart, generatedSlots).
        nat (dayEnd - slotStart))")
    (auto simp: plusMinutes_def MS_PER_MINUTE_def)

text \<open>
  The inner loop on \<open>dayStart\<close> and \<open>dayEnd\<close> as \<open>set\<close> returns them: with one of them invalid
  the condition \<open>slotStart < dayEnd\<close> is false at once.
\<close>

definition slotsOfDay ::
  "GetSlotsParams \<Rightarrow> instant \<Rightarrow> instant \<Rightarrow> instant option \<Rightarrow> instant option \<Rightarrow> Slot list
     \<Rightarrow> Slot list"
where
  "slotsOfDay params fromDt toDt dayEnd dayStart generatedSlots =
     (case dayStart of
        None \<Rightarrow> generatedSlots
      | Some slotStart \<Rightarrow>
          (case dayEnd of
             None \<Rightarrow> generatedSlots
           | Some e \<Rightarrow> virtualSlotLoop params fromDt toDt e slotStart generatedSlots))"

text \<open>The loop over the days (lines 149 to 230).\<close>

function virtualDayLoop ::
  "GetSlotsParams \<Rightarrow> Availability list \<Rightarrow> instant \<Rightarrow> instant \<Rightarrow> instant \<Rightarrow> instant
     \<Rightarrow> Slot list \<Rightarrow> error + Slot list"
where
  "virtualDayLoop params availabilities fromDt toDt endDate currentDate generatedSlots =
     (if currentDate \<le> endDate then
        (case find (\<lambda>av. day_of_week av = dayOfWeek SAO_PAULO currentDate) availabilities of
           None \<Rightarrow>
             virtualDayLoop params availabilities fromDt toDt endDate (plusDays currentDate 1)
               generatedSlots
         | Some availability \<Rightarrow>
             (case setClock SAO_PAULO (Some currentDate) (start_time availability) of
                Inl e \<Rightarrow> Inl e
              | Inr dayStart \<Rightarrow>
                  (case setClock SAO_PAULO (Some currentDate) (end_time availability) of
                     Inl e \<Rightarrow> Inl e
                   | Inr dayEnd \<Rightarrow>
                       virtualDayLoop params availabilities fromDt toDt endDate
                         (plusDays currentDate 1)
                         (slotsOfDay params fromDt toDt dayEnd dayStart generatedSlots))))
      else Inr generatedSlots)"
  by pat_completeness auto
termination
  by (relation "measure (\<lambda>(params, availabilities, fromDt, toDt, endDate, currentDate,
        generatedSlots). nat (endDate - currentDate + 1))")
    (auto simp: plusDays_def MS_PER_DAY_def)

text \<open>
  With an unreadable \<open>from\<close> or \<open>to\<close> the dates are invalid, the loop condition is false
  and the result is empty.
\<close>

definition generateSlotsFromAvailabilities ::
  "Availability list \<Rightarrow> GetSlotsParams \<Rightarrow> error + Slot list"
where
  "generateSlotsFromAvailabilities availabilities params =
     (if availabilities = [] then Inr []
      else
        (case fromISO 0 (from' params) of
           None \<Rightarrow> Inr []
         | Some fromDt \<Rightarrow>
             (case fromISO 0 (to' params) of
                None \<Rightarrow> Inr []
              | Some toDt \<Rightarrow>
                  virtualDayLoop params availabilities fromDt toDt
                    (startOfDay SAO_PAULO toDt) (startOfDay SAO_PAULO fromDt) [])))"

subsection \<open>\<open>generateServiceSlotsDirectly\<close>: windows of the service's duration\<close>

text \<open>
  The fields of the \<open>params\<close> object that the generator reads. \<open>timezone'\<close>, \<open>closingTime'\<close>
  and \<open>minLeadMinutes'\<close> are the fields \<open>timezone\<close>, \<open>closingTime\<close> and \<open>minLeadMinutes\<close>
  (the names without a prime are those of \<open>BuildParams\<close>); \<open>rangeFrom\<close> and \<open>rangeTo\<close> are
  \<open>from\<close> and \<open>to\<close>.
\<close>

record DirectParams =
  duration :: int
  rangeFrom :: string
  rangeTo :: string
  timezone' :: zone
  closingTime' :: string
  occupiedStartTimes :: "string set"
  minLeadMinutes' :: int

text \<open>The lead-time check of the generator (lines 312 to 320): \<open>True\<close> when the slot is kept.\<close>

definition isFuture :: "zone \<Rightarrow> instant \<Rightarrow> instant \<Rightarrow> bool" where
  "isFuture z nowWithLead slotStart =
     (if hasSameDay z slotStart nowWithLead then nowWithLead \<le> slotStart
      else nowWithLead < slotStart)"

text \<open>
  The inner loop (lines 299 to 341) advances by the duration of the service. It does not
  end when the duration is not positive: the result is an option, \<open>None\<close> for a loop that
  never returns. The loop runs on valid \<open>slotStart\<close> and \<open>dayEnd\<close>; with an invalid
  \<open>dayClosing\<close> the comparison \<open>slotEnd > dayClosing\<close> is false and the loop does not break.
\<close>

partial_function (option) serviceSlotLoop ::
  "DirectParams \<Rightarrow> instant \<Rightarrow> instant \<Rightarrow> instant \<Rightarrow> instant \<Rightarrow> instant option \<Rightarrow> instant
     \<Rightarrow> Window list \<Rightarrow> Window list option"
where
  "serviceSlotLoop params fromDt toDt nowWithLead dayEnd dayClosing slotStart windows =
     (if slotStart < dayEnd then
        (let slotEnd = plusMinutes slotStart (duration params) in
         if before dayClosing (Some slotEnd) then Some windows
         else
           serviceSlotLoop params fromDt toDt nowWithLead dayEnd dayClosing slotEnd
             (if fromDt \<le> slotStart \<and> slotStart \<le> toDt
                 \<and> isFuture (timezone' params) nowWithLead slotStart
                 \<and> toISO slotStart \<notin> occupiedStartTimes params
              then windows @
                [\<lparr>start_time = toISO slotStart, end_time = toISO slotEnd,
                  slot_ids = [''virtual-'' @ toISO slotStart]\<rparr>]
              else windows))
      else Some windows)"

text \<open>
  The inner loop on \<open>dayStart\<close> and \<open>dayEnd\<close> as \<open>set\<close> returns them: with one of them invalid
  the condition \<open>slotStart < dayEnd\<close> is false at once.
\<close>

definition windowsOfDay ::
  "DirectParams \<Rightarrow> instant \<Rightarrow> instant \<Rightarrow> instant \<Rightarrow> instant option \<Rightarrow> instant option
     \<Rightarrow> instant option \<Rightarrow> Window list \<Rightarrow> Window list option"
where
  "windowsOfDay params fromDt toDt nowWithLead dayEnd dayClosing dayStart windows =
     (case dayStart of
        None \<Rightarrow> Some windows
      | Some slotStart \<Rightarrow>
          (case dayEnd of
             None \<Rightarrow> Some windows
           | Some e \<Rightarrow>
               serviceSlotLoop params fromDt toDt nowWithLead e dayClosing slotStart windows))"

text \<open>The loop over the days (lines 279 to 345).\<close>

partial_function (option) serviceDayLoop ::
  "DirectParams \<Rightarrow> Availability list \<Rightarrow> instant \<Rightarrow> instant \<Rightarrow> instant \<Rightarrow> instant \<Rightarrow> instant
     \<Rightarrow> Window list \<Rightarrow> (error + Window list) option"
where
  "serviceDayLoop params availabilities fromDt toDt nowWithLead endDate currentDate windows =
     (if currentDate \<le> endDate then
        (case find (\<lambda>av. day_of_week av = dayOfWeek (timezone' params) currentDate)
                availabilities of
           None \<Rightarrow>
             serviceDayLoop params availabilities fromDt toDt nowWithLead endDate
               (plusDays currentDate 1) windows
         | Some availability \<Rightarrow>
             (case setClock (timezone' params) (Some currentDate) (start_time availability) of
                Inl e \<Rightarrow> Some (Inl e)
              | Inr dayStart \<Rightarrow>
             (case setClock (timezone' params) (Some currentDate) (end_time availability) of
                Inl e \<Rightarrow> Some (Inl e)
              | Inr dayEnd \<Rightarrow>
             (case setClock (timezone' params) (Some currentDate) (closingTime' params) of
                Inl e \<Rightarrow> Some (Inl e)
              | Inr dayClosing \<Rightarrow>
             (case windowsOfDay params fromDt toDt nowWithLead dayEnd dayClosing dayStart
                     windows of
                None \<Rightarrow> None
              | Some windows' \<Rightarrow>
                  serviceDayLoop params availabilities fromDt toDt nowWithLead endDate
                    (plusDays currentDate 1) windows')))))
      else Some (Inr windows))"

definition generateServiceSlotsDirectly ::
  "Availability list \<Rightarrow> instant \<Rightarrow> DirectParams \<Rightarrow> (error + Window list) option"
where
  "generateServiceSlotsDirectly availabilities nowDt params =
     (if availabilities = [] then Some (Inr [])
      else
        (case fromISO 0 (rangeFrom params) of
           None \<Rightarrow> Some (Inr [])
         | Some fromDt \<Rightarrow>
             (case fromISO 0 (rangeTo params) of
                None \<Rightarrow> Some (Inr [])
              | Some toDt \<Rightarrow>
                  serviceDayLoop params availabilities fromDt toDt
                    (plusMinutes nowDt (minLeadMinutes' params))
                    (startOfDay (timezone' params) toDt)
                    (startOfDay (timezone' params) fromDt) [])))"

section \<open>The store and the reconciliation of \<open>getServiceWindows\<close>\<close>

subsection \<open>The \<open>slots\<close> and \<open>professionals\<close> tables\<close>

text \<open>
  The store is the Supabase client's view of the database. A row of \<open>slots\<close> holds its
  times as instants (\<open>timestamptz\<close>); a read returns them as text, written by \<open>render\<close>
  (the serialisation is the store's choice: a \<open>Z\<close> or a \<open>+00:00\<close> suffix, with or without
  milliseconds). \<open>newId\<close> gives the id of the n-th row ever inserted. \<open>uniqueStart\<close> says
  whether the table has the unique constraint on \<open>(professional_id, start_time)\<close>.
  Texts handed to the store are read with \<open>fromISO\<close> in UTC.
\<close>

record SlotRow =
  row_id :: string
  row_professional_id :: string
  row_service_id :: "string option"
  row_start :: instant
  row_end :: instant
  row_is_available :: bool

record Store =
  professionals :: "(string \<times> string) list"
  slotRows :: "SlotRow list"
  uniqueStart :: bool
  render :: "instant \<Rightarrow> string"
  newId :: "nat \<Rightarrow> string"

definition toSlot :: "Store \<Rightarrow> SlotRow \<Rightarrow> Slot" where
  "toSlot store r =
     \<lparr>start_time = render store (row_start r), end_time = render store (row_end r),
      id' = row_id r, professional_id = row_professional_id r,
      is_available = row_is_available r, service_id = row_service_id r\<rparr>"

text \<open>
  \<open>from("professionals").select("id").eq("id", p).eq("company_id", c).single()\<close>: the data is
  non-null when exactly one row matches.
\<close>

definition professionalOfCompany :: "Store \<Rightarrow> string \<Rightarrow> string \<Rightarrow> bool" where
  "professionalOfCompany store p c \<longleftrightarrow> length (filter (\<lambda>x. x = (p, c)) (professionals store)) = 1"

text \<open>
  \<open>from("slots").select(...).eq("professional_id", p).eq("is_available", a)
  .gte("start_time", from).lte("start_time", to)\<close>; \<open>None\<close> is the error of a query whose
  bounds are not timestamps.
\<close>

definition selectSlotsInRange ::
  "Store \<Rightarrow> string \<Rightarrow> bool \<Rightarrow> string \<Rightarrow> string \<Rightarrow> Slot list option"
where
  "selectSlotsInRange store p a fromText toText =
     (case fromISO 0 fromText of
        None \<Rightarrow> None
      | Some f \<Rightarrow>
          (case fromISO 0 toText of
             None \<Rightarrow> None
           | Some t \<Rightarrow>
               Some (map (toSlot store)
                 (filter (\<lambda>r. row_professional_id r = p \<and> row_is_available r = a
                              \<and> f \<le> row_start r \<and> row_start r \<le> t)
                    (slotRows store)))))"

text \<open>
  \<open>from("slots").select("id, start_time").eq("professional_id", p).in("start_time", texts)\<close>.
\<close>

definition selectSlotsByStart :: "Store \<Rightarrow> string \<Rightarrow> string list \<Rightarrow> Slot list option" where
  "selectSlotsByStart store p texts =
     (if list_all (\<lambda>x. fromISO 0 x \<noteq> None) texts
      then Some (map (toSlot store)
             (filter (\<lambda>r. row_professional_id r = p
                          \<and> Some (row_start r) \<in> set (map (fromISO 0) texts))
                (slotRows store)))
      else None)"

text \<open>
  \<open>from("slots").insert(rows).select("id, start_time")\<close>: one batch. It fails as a whole
  when a time is not a timestamp, or when the unique constraint is violated by a row of
  the table or by another row of the batch; otherwise the rows get their ids and are
  appended. The rows to insert are \<open>Slot\<close> values whose \<open>id'\<close> is not read.
\<close>

definition toRow :: "string \<Rightarrow> Slot \<Rightarrow> SlotRow option" where
  "toRow i s =
     (case fromISO 0 (start_time s) of
        None \<Rightarrow> None
      | Some st \<Rightarrow>
          (case fromISO 0 (end_time s) of
             None \<Rightarrow> None
           | Some en \<Rightarrow>
               Some \<lparr>row_id = i, row_professional_id = professional_id s,
                     row_service_id = service_id s, row_start = st, row_end = en,
                     row_is_available = is_available s\<rparr>))"

fun toRows :: "(nat \<Rightarrow> string) \<Rightarrow> nat \<Rightarrow> Slot list \<Rightarrow> SlotRow list option" where
  "toRows gen n [] = Some []"
| "toRows gen n (s # ss) =
     (case toRow (gen n) s of
        None \<Rightarrow> None
      | Some r \<Rightarrow> map_option ((#) r) (toRows gen (Suc n) ss))"

definition rowKey :: "SlotRow \<Rightarrow> string \<times> instant" where
  "rowKey r = (row_professional_id r, row_start r)"

definition insertSlots :: "Store \<Rightarrow> Slot list \<Rightarrow> (error + Slot list) \<times> Store" where
  "insertSlots store new =
     (case toRows (newId store) (length (slotRows store)) new of
        None \<Rightarrow> (Inl InvalidTimestamp, store)
      | Some rows \<Rightarrow>
          if uniqueStart store
             \<and> (\<not> distinct (map rowKey rows)
                  \<or> (\<exists>r\<in>set rows. rowKey r \<in> set (map rowKey (slotRows store))))
          then (Inl DuplicateKey, store)
          else (Inr (map (toSlot store) rows),
                store\<lparr>slotRows := slotRows store @ rows\<rparr>))"

subsection \<open>Keys of instants\<close>

text \<open>\<open>DateTime.fromISO(text, {zone: 'utc'}).toUTC().toISO()\<close>: \<open>None\<close> is \<open>null\<close>.\<close>

definition normalizeTime :: "string \<Rightarrow> string option" where
  "normalizeTime text = map_option toISO (fromISO 0 text)"

text \<open>\<open>text.replace(/\.\d{3}Z$/, r)\<close>.\<close>

definition replaceMillisZ :: "string \<Rightarrow> string \<Rightarrow> string" where
  "replaceMillisZ r text =
     (let n = length text in
      if 5 \<le> n \<and> text ! (n - 5) = CHR ''.'' \<and> isDigit (text ! (n - 4))
         \<and> isDigit (text ! (n - 3)) \<and> isDigit (text ! (n - 2)) \<and> text ! (n - 1) = CHR ''Z''
      then take (n - 5) text @ r else text)"

text \<open>\<open>text.replace('Z', r)\<close>: the first \<open>Z\<close> only.\<close>

fun replaceFirstZ :: "string \<Rightarrow> string \<Rightarrow> string" where
  "replaceFirstZ r [] = []"
| "replaceFirstZ r (c # cs) = (if c = CHR ''Z'' then r @ cs else c # replaceFirstZ r cs)"

text \<open>A value of a \<open>Map<string, string>\<close> lookup is truthy when it is a non-empty text.\<close>

definition truthy :: "string option \<Rightarrow> bool" where
  "truthy v \<longleftrightarrow> (case v of None \<Rightarrow> False | Some s \<Rightarrow> s \<noteq> [])"

text \<open>\<open>a || b\<close> and \<open>if (!a) a = b\<close>.\<close>

definition orElse :: "string option \<Rightarrow> string option \<Rightarrow> string option" where
  "orElse a b = (if truthy a then a else b)"

text \<open>\<open>w.slot_ids && w.slot_ids.length > 0 && w.slot_ids[0].startsWith('virtual-')\<close>.\<close>

definition isVirtual :: "Window \<Rightarrow> bool" where
  "isVirtual w \<longleftrightarrow> (case slot_ids w of [] \<Rightarrow> False | i # _ \<Rightarrow> prefix ''virtual-'' i)"

subsection \<open>The occupied set and the map of real ids (lines 421 to 475)\<close>

text \<open>An error of the query leaves \<open>occupiedSlots\<close> null, read as no row.\<close>

definition occupiedSet :: "Slot list option \<Rightarrow> string set" where
  "occupiedSet occupiedSlots =
     set (map start_time (case occupiedSlots of None \<Rightarrow> [] | Some rows \<Rightarrow> rows))"

text \<open>
  One turn of the loop of lines 453 to 474. \<open>fromISO\<close> does not throw on a text, so the
  \<open>catch\<close> branch, which sets the raw key as the last step of the \<open>try\<close> does, is not taken.
\<close>

definition registerRealSlot :: "(string \<rightharpoonup> string) \<Rightarrow> Slot \<Rightarrow> (string \<rightharpoonup> string)" where
  "registerRealSlot m slot =
     (let m1 =
        (case normalizeTime (start_time slot) of
           None \<Rightarrow> m
         | Some normalizedTime \<Rightarrow>
             (let m' = m(normalizedTime \<mapsto> id' slot);
                  withoutMs = replaceMillisZ ''Z'' normalizedTime
              in if withoutMs \<noteq> normalizedTime then m'(withoutMs \<mapsto> id' slot) else m'))
      in m1(start_time slot \<mapsto> id' slot))"

definition realSlotIds :: "Slot list option \<Rightarrow> (string \<rightharpoonup> string)" where
  "realSlotIds availableSlots =
     foldl registerRealSlot Map.empty
       (case availableSlots of None \<Rightarrow> [] | Some rows \<Rightarrow> rows)"

subsection \<open>Real ids for the generated windows (lines 510 to 565)\<close>

definition findRealId :: "(string \<rightharpoonup> string) \<Rightarrow> string \<Rightarrow> string option" where
  "findRealId m text =
     orElse
       (case normalizeTime text of
          None \<Rightarrow> None
        | Some normalizedGeneratedTime \<Rightarrow>
            orElse (orElse (orElse (m normalizedGeneratedTime)
              (m (replaceMillisZ ''Z'' normalizedGeneratedTime)))
              (m (replaceFirstZ ''+00:00'' normalizedGeneratedTime)))
              (m (replaceMillisZ ''+00:00'' normalizedGeneratedTime)))
       (m text)"

definition withRealId :: "(string \<rightharpoonup> string) \<Rightarrow> Window \<Rightarrow> Window" where
  "withRealId m w =
     (case findRealId m (start_time w) of
        None \<Rightarrow> w
      | Some realId \<Rightarrow> if realId \<noteq> [] then w\<lparr>slot_ids := [realId]\<rparr> else w)"

subsection \<open>Materialisation of the virtual windows (lines 567 to 675)\<close>

text \<open>One turn of the loops of lines 600 to 606 and 643 to 649.\<close>

definition registerSlotId :: "(string \<rightharpoonup> string) \<Rightarrow> Slot \<Rightarrow> (string \<rightharpoonup> string)" where
  "registerSlotId m slot =
     (let m1 = (case normalizeTime (start_time slot) of
                  None \<Rightarrow> m
                | Some normalizedTime \<Rightarrow> m(normalizedTime \<mapsto> id' slot))
      in m1(start_time slot \<mapsto> id' slot))"

text \<open>The filter of lines 610 to 613: the slot is not among the existing ones.\<close>

definition notExisting :: "(string \<rightharpoonup> string) \<Rightarrow> Slot \<Rightarrow> bool" where
  "notExisting existingSlotIds slot \<longleftrightarrow>
     \<not> (case normalizeTime (start_time slot) of
          None \<Rightarrow> start_time slot \<in> dom existingSlotIds
        | Some normalizedTime \<Rightarrow> normalizedTime \<in> dom existingSlotIds)"

text \<open>One turn of the loop of lines 652 to 667.\<close>

definition withMaterializedId :: "(string \<rightharpoonup> string) \<Rightarrow> Window \<Rightarrow> Window" where
  "withMaterializedId allSlotIds w =
     (if isVirtual w then
        (case (case normalizeTime (start_time w) of
                 None \<Rightarrow> allSlotIds (start_time w)
               | Some normalizedTime \<Rightarrow>
                   orElse (allSlotIds normalizedTime) (allSlotIds (start_time w))) of
           None \<Rightarrow> w
         | Some realId \<Rightarrow> if realId \<noteq> [] then w\<lparr>slot_ids := [realId]\<rparr> else w)
      else w)"

text \<open>\<open>virtualSlots\<close>, \<open>slotsToCreate\<close>, \<open>existingSlotIds\<close> and \<open>slotsToInsert\<close> (lines 568 to 613).\<close>

definition virtualSlots :: "Window list \<Rightarrow> Window list" where
  "virtualSlots windowsWithRealIds = filter isVirtual windowsWithRealIds"

definition slotToCreate :: "string \<Rightarrow> string \<Rightarrow> Window \<Rightarrow> Slot" where
  "slotToCreate pid sid w =
     \<lparr>start_time = start_time w, end_time = end_time w, id' = [],
      professional_id = pid, is_available = True, service_id = Some sid\<rparr>"

definition existingSlotIds :: "Store \<Rightarrow> string \<Rightarrow> Window list \<Rightarrow> (string \<rightharpoonup> string)" where
  "existingSlotIds store pid windowsWithRealIds =
     foldl registerSlotId Map.empty
       (case selectSlotsByStart store pid
               (map start_time (virtualSlots windowsWithRealIds)) of
          None \<Rightarrow> []
        | Some rows \<Rightarrow> rows)"

definition slotsToInsert :: "Store \<Rightarrow> string \<Rightarrow> string \<Rightarrow> Window list \<Rightarrow> Slot list" where
  "slotsToInsert store pid sid windowsWithRealIds =
     filter (notExisting (existingSlotIds store pid windowsWithRealIds))
       (map (slotToCreate pid sid) (virtualSlots windowsWithRealIds))"

text \<open>
  The step as a whole. Other callers may commit rows between the query for the existing
  rows (line 591) and the insert (line 619): \<open>concurrent\<close> are those rows, empty when the
  caller is alone. A failed insert is logged and nothing else (lines 624 to 628): the
  created slots stay empty. The result is the windows and the store after the step.
\<close>

definition materialize ::
  "SlotRow list \<Rightarrow> Store \<Rightarrow> string \<Rightarrow> string \<Rightarrow> Window list \<Rightarrow> Window list \<times> Store"
where
  "materialize concurrent store pid sid windowsWithRealIds =
     (if virtualSlots windowsWithRealIds = [] then (windowsWithRealIds, store)
      else
        (let store1 = store\<lparr>slotRows := slotRows store @ concurrent\<rparr>;
             inserted =
               (if slotsToInsert store pid sid windowsWithRealIds \<noteq> [] then
                  (case insertSlots store1 (slotsToInsert store pid sid windowsWithRealIds) of
                     (Inl createError, s) \<Rightarrow> ([], s)
                   | (Inr insertedSlots, s) \<Rightarrow> (insertedSlots, s))
                else ([], store1));
             allSlotIds =
               foldl registerSlotId (existingSlotIds store pid windowsWithRealIds)
                 (fst inserted)
         in (map (withMaterializedId allSlotIds) windowsWithRealIds, snd inserted)))"

subsection \<open>\<open>getAvailableSlots\<close> (lines 43 to 101)\<close>

text \<open>
  The optional filter \<open>service_id.eq.X,service_id.is.null\<close> and the order by \<open>start_time\<close>
  are applied to the rows of the range query.
\<close>

definition availableSlotRows ::
  "Store \<Rightarrow> GetSlotsParams \<Rightarrow> Slot list option"
where
  "availableSlotRows store params =
     (case fromISO 0 (from' params) of
        None \<Rightarrow> None
      | Some f \<Rightarrow>
          (case fromISO 0 (to' params) of
             None \<Rightarrow> None
           | Some t \<Rightarrow>
               Some (map (toSlot store)
                 (sort_key row_start
                   (filter (\<lambda>r. row_professional_id r = professionalId params
                      \<and> row_is_available r \<and> f \<le> row_start r \<and> row_start r \<le> t
                      \<and> (case orNull (serviceId params) of
                            None \<Rightarrow> True
                          | Some sid \<Rightarrow> row_service_id r = Some sid \<or> row_service_id r = None))
                    (slotRows store))))))"

definition getAvailableSlots ::
  "Store \<Rightarrow> Availability list \<Rightarrow> GetSlotsParams \<Rightarrow> error + Slot list"
where
  "getAvailableSlots store availabilities params =
     (if \<not> professionalOfCompany store (professionalId params) (companyId params)
      then Inl ProfessionalNotFound
      else
        (case availableSlotRows store params of
           None \<Rightarrow> Inl FailedToGetSlots
         | Some data \<Rightarrow>
             if data \<noteq> [] then Inr data
             else generateSlotsFromAvailabilities availabilities params))"

section \<open>Auxiliary notions for the statements\<close>

text \<open>The window that the direct generator pushes for a slot starting at \<open>t\<close> (lines 329 to 333).\<close>

definition directWindowAt :: "DirectParams \<Rightarrow> instant \<Rightarrow> Window" where
  "directWindowAt params t =
     \<lparr>start_time = toISO t, end_time = toISO (plusMinutes t (duration params)),
      slot_ids = [''virtual-'' @ toISO t]\<rparr>"

text \<open>
  The slot at \<open>t\<close> passes the checks of the inner loop of the direct generator on the day
  that starts at \<open>day\<close>, for the availability \<open>av\<close>.
\<close>

definition directSlotOn ::
  "DirectParams \<Rightarrow> instant \<Rightarrow> instant \<Rightarrow> instant \<Rightarrow> instant \<Rightarrow> Availability \<Rightarrow> instant \<Rightarrow> bool"
where
  "directSlotOn params fromDt toDt nowWithLead day av t \<longleftrightarrow>
     (\<exists>dayStart dayEnd dayClosing.
        setClock (timezone' params) (Some day) (start_time av) = Inr (Some dayStart)
      \<and> setClock (timezone' params) (Some day) (end_time av) = Inr (Some dayEnd)
      \<and> setClock (timezone' params) (Some day) (closingTime' params) = Inr dayClosing
      \<and> fromDt \<le> t \<and> t \<le> toDt \<and> isFuture (timezone' params) nowWithLead t
      \<and> toISO t \<notin> occupiedStartTimes params
      \<and> t < dayEnd \<and> \<not> before dayClosing (Some (plusMinutes t (duration params)))
      \<and> dayStart \<le> t \<and> 0 < duration params)"

text \<open>Two half-open ranges of instants share an instant.\<close>

definition overlaps :: "instant \<Rightarrow> instant \<Rightarrow> instant \<Rightarrow> instant \<Rightarrow> bool" where
  "overlaps s1 e1 s2 e2 \<longleftrightarrow> max s1 s2 < min e1 e2"

section \<open>The scenarios of the repository's tests\<close>

text \<open>\<open>makeSlot\<close> and the three cases of \<open>slot-windows.util.test.ts\<close>.\<close>

definition makeSlot :: "string \<Rightarrow> string \<Rightarrow> string \<Rightarrow> bool \<Rightarrow> BaseSlot" where
  "makeSlot i startISO endISO isAvailable =
     \<lparr>start_time = startISO, end_time = endISO, id' = i, professional_id = ''p1'',
      is_available = isAvailable\<rparr>"

definition scenarioA :: BuildParams where
  "scenarioA =
     \<lparr>baseSlots =
        [makeSlot ''s1'' ''2026-01-27T11:00:00.000Z'' ''2026-01-27T11:15:00.000Z'' True,
         makeSlot ''s2'' ''2026-01-27T11:15:00.000Z'' ''2026-01-27T11:30:00.000Z'' True,
         makeSlot ''s3'' ''2026-01-27T11:30:00.000Z'' ''2026-01-27T11:45:00.000Z'' True,
         makeSlot ''s4'' ''2026-01-27T11:45:00.000Z'' ''2026-01-27T12:00:00.000Z'' True],
      durationMinutes = 60, slotStepMinutes = 15, now = ''2026-01-27T09:00:00.000Z'',
      closingTime = ''18:00'', timezone = 0, minLeadMinutes = None\<rparr>"

definition windowA :: BuiltWindow where
  "windowA = \<lparr>start_time = Some ''2026-01-27T11:00:00.000Z'',
               end_time = Some ''2026-01-27T12:00:00.000Z'',
               slot_ids = [''s1'', ''s2'', ''s3'', ''s4'']\<rparr>"

text \<open>Two base slots and a service of 20 minutes on a grid of 15.\<close>

definition scenario20 :: BuildParams where
  "scenario20 =
     \<lparr>baseSlots =
        [makeSlot ''a1'' ''2026-01-27T11:00:00.000Z'' ''2026-01-27T11:15:00.000Z'' True,
         makeSlot ''a2'' ''2026-01-27T11:15:00.000Z'' ''2026-01-27T11:30:00.000Z'' True],
      durationMinutes = 20, slotStepMinutes = 15, now = ''2026-01-27T09:00:00.000Z'',
      closingTime = ''18:00'', timezone = 0, minLeadMinutes = None\<rparr>"

definition window20 :: BuiltWindow where
  "window20 = \<lparr>start_time = Some ''2026-01-27T11:00:00.000Z'',
               end_time = Some ''2026-01-27T11:20:00.000Z'',
               slot_ids = [''a1'', ''a2'']\<rparr>"

text \<open>
  A professional available on Tuesdays from 09:00 to 12:00 (America/Sao\_Paulo), a service
  of 60 minutes, Tuesday 2026-01-27, and a booked row from 09:30 to 10:00 local time.
\<close>

definition tuesdayMorning :: "Availability list" where
  "tuesdayMorning = [\<lparr>start_time = ''09:00'', end_time = ''12:00'', day_of_week = 2\<rparr>]"

definition occupiedRow :: Slot where
  "occupiedRow =
     \<lparr>start_time = ''2026-01-27T12:30:00.000Z'', end_time = ''2026-01-27T13:00:00.000Z'',
      id' = ''o1'', professional_id = ''p1'', is_available = False, service_id = None\<rparr>"

definition directScenario :: DirectParams where
  "directScenario =
     \<lparr>duration = 60, rangeFrom = ''2026-01-27T11:00:00Z'', rangeTo = ''2026-01-27T12:30:00Z'',
      timezone' = SAO_PAULO, closingTime' = ''18:00'',
      occupiedStartTimes = occupiedSet (Some [occupiedRow]), minLeadMinutes' = 0\<rparr>"

definition directNow :: instant where
  "directNow = 1769400000000"

definition directWindow :: Window where
  "directWindow =
     \<lparr>start_time = ''2026-01-27T12:00:00.000Z'', end_time = ''2026-01-27T13:00:00.000Z'',
      slot_ids = [''virtual-2026-01-27T12:00:00.000Z'']\<rparr>"

text \<open>
  The same Tuesday with the availability starting at 09:10, seen at 10:05 local time
  (13:05 UTC): the candidate start 10:10 is off the grid of 15 minutes. \<open>leadBuild\<close> gives
  the builder one base slot at that start, with the same \<open>now\<close>.
\<close>

definition tuesdayOffGrid :: "Availability list" where
  "tuesdayOffGrid = [\<lparr>start_time = ''09:10'', end_time = ''12:00'', day_of_week = 2\<rparr>]"

definition leadNow :: instant where
  "leadNow = 1769519100000"

definition leadDirect :: DirectParams where
  "leadDirect =
     \<lparr>duration = 60, rangeFrom = ''2026-01-27T11:00:00Z'', rangeTo = ''2026-01-27T13:30:00Z'',
      timezone' = SAO_PAULO, closingTime' = ''18:00'', occupiedStartTimes = {},
      minLeadMinutes' = 0\<rparr>"

definition leadWindow :: Window where
  "leadWindow =
     \<lparr>start_time = ''2026-01-27T13:10:00.000Z'', end_time = ''2026-01-27T14:10:00.000Z'',
      slot_ids = [''virtual-2026-01-27T13:10:00.000Z'']\<rparr>"

definition leadBuild :: BuildParams where
  "leadBuild =
     \<lparr>baseSlots =
        [makeSlot ''b1'' ''2026-01-27T13:10:00.000Z'' ''2026-01-27T13:25:00.000Z'' True],
      durationMinutes = 15, slotStepMinutes = 15, now = ''2026-01-27T13:05:00.000Z'',
      closingTime = ''18:00'', timezone = SAO_PAULO, minLeadMinutes = Some 0\<rparr>"

text \<open>A store with one professional and no slot, and a request for 20 minutes of that Tuesday.\<close>

definition emptyStore :: Store where
  "emptyStore =
     \<lparr>professionals = [(''p1'', ''c1'')], slotRows = [], uniqueStart = True,
      render = toISO, newId = (\<lambda>n. ''slot-'' @ padStart 1 n)\<rparr>"

definition slotsRequest :: GetSlotsParams where
  "slotsRequest =
     \<lparr>professionalId = ''p1'', serviceId = None, from' = ''2026-01-27T12:00:00Z'',
      to' = ''2026-01-27T12:20:00Z'', companyId = ''c1''\<rparr>"

definition virtualSlot1 :: Slot where
  "virtualSlot1 =
     \<lparr>start_time = ''2026-01-27T12:00:00.000Z'', end_time = ''2026-01-27T12:15:00.000Z'',
      id' = ''virtual-2026-01-27T12:00:00.000Z'', professional_id = ''p1'',
      is_available = True, service_id = None\<rparr>"

definition virtualSlot2 :: Slot where
  "virtualSlot2 =
     \<lparr>start_time = ''2026-01-27T12:15:00.000Z'', end_time = ''2026-01-27T12:30:00.000Z'',
      id' = ''virtual-2026-01-27T12:15:00.000Z'', professional_id = ''p1'',
      is_available = True, service_id = None\<rparr>"

text \<open>
  A persisted slot as the store writes it (\<open>+00:00\<close>, no milliseconds) and the generated
  window of the same instant (\<open>Z\<close>, milliseconds).
\<close>

definition persistedSlot :: Slot where
  "persistedSlot =
     \<lparr>start_time = ''2026-01-27T11:00:00+00:00'', end_time = ''2026-01-27T12:00:00+00:00'',
      id' = ''7f3c'', professional_id = ''p1'', is_available = True, service_id = None\<rparr>"

definition generatedWindow :: Window where
  "generatedWindow =
     \<lparr>start_time = ''2026-01-27T11:00:00.000Z'', end_time = ''2026-01-27T12:00:00.000Z'',
      slot_ids = [''virtual-2026-01-27T11:00:00.000Z'']\<rparr>"

text \<open>
  The row that another caller commits for the instant of \<open>generatedWindow\<close> between the
  query for the existing rows and the insert.
\<close>

definition winningRow :: SlotRow where
  "winningRow =
     \<lparr>row_id = ''won'', row_professional_id = ''p1'', row_service_id = Some ''s1'',
      row_start = 1769511600000, row_end = 1769515200000, row_is_available = True\<rparr>"

text \<open>
  The two base slots of \<open>scenario20\<close> on a heap, the later one first in the caller's array.
\<close>

definition unsortedHeap :: Heap where
  "unsortedHeap =
     \<lparr>slotArrays = [[0, 1]],
      slotObjects =
        [makeSlot ''a2'' ''2026-01-27T11:15:00.000Z'' ''2026-01-27T11:30:00.000Z'' True,
         makeSlot ''a1'' ''2026-01-27T11:00:00.000Z'' ''2026-01-27T11:15:00.000Z'' True]\<rparr>"

text \<open>
  One base slot whose \<open>start_time\<close> names the 30th of February, with a duration of one step.
\<close>

definition unreadableStart :: BuildParams where
  "unreadableStart =
     \<lparr>baseSlots =
        [makeSlot ''g1'' ''2026-02-30T11:00:00Z'' ''2026-02-30T11:15:00Z'' True],
      durationMinutes = 15, slotStepMinutes = 15, now = ''2026-01-27T09:00:00.000Z'',
      closingTime = ''18:00'', timezone = 0, minLeadMinutes = None\<rparr>"

definition untimedWindow :: BuiltWindow where
  "untimedWindow = \<lparr>start_time = None, end_time = None, slot_ids = [''g1'']\<rparr>"

text \<open>
  An availability for Tuesdays whose \<open>start_time\<close> has the hour -1, so that the day starts
  at 23:00 on Monday, local time (02:00 UTC on Tuesday 2026-01-27), with a closing time of
  18:00 and a service of 60 minutes.
\<close>

definition beforeMidnight :: "Availability list" where
  "beforeMidnight = [\<lparr>start_time = ''-1:00'', end_time = ''00:00'', day_of_week = 2\<rparr>]"



section \<open>Properties of the calendar and of ISO-8601 text\<close>

lemma isDigit_digitChar: "n < 10 \<Longrightarrow> isDigit (digitChar n)"
  by (simp add: isDigit_def digitChar_def)

lemma digitVal_digitChar: "n < 10 \<Longrightarrow> digitVal (digitChar n) = n"
  by (simp add: digitVal_def digitChar_def)

lemma digitsVal_snoc: "digitsVal (s @ [c]) = 10 * digitsVal s + digitVal c"
  by (simp add: digitsVal_def)

lemma all_digits_padStart: "list_all isDigit (padStart w k)"
  by (induction w k rule: padStart.induct) (simp_all add: isDigit_digitChar)

lemma digitsVal_padStart: "digitsVal (padStart w k) = k"
proof (induction w k rule: padStart.induct)
  case (1 k)
  then show ?case by (simp add: digitsVal_snoc digitVal_digitChar) (simp add: digitsVal_def)
next
  case (2 w k)
  then show ?case by (simp add: digitsVal_snoc digitVal_digitChar)
qed

lemma length_padStart_ge: "w \<le> length (padStart w k)"
  by (induction w k rule: padStart.induct) simp_all

lemma length_padStart: "k < 10 ^ w \<Longrightarrow> length (padStart w k) = w"
proof (induction w arbitrary: k)
  case 0
  then show ?case by simp
next
  case (Suc w)
  then have "k div 10 < 10 ^ w" by (simp add: less_mult_imp_div_less mult.commute)
  with Suc.IH show ?case by simp
qed

lemma takeDigits_padStart:
  "k < 10 ^ w \<Longrightarrow> 0 < w \<Longrightarrow> takeDigits w (padStart w k @ r) = Some (k, r)"
  by (simp add: takeDigits_def length_padStart all_digits_padStart digitsVal_padStart)

lemma takeWhile_padStart:
  "\<not> isDigit c \<Longrightarrow> takeWhile isDigit (padStart w k @ c # r) = padStart w k"
  using all_digits_padStart[of w k] by (simp add: takeWhile_append2 list_all_iff)

lemma dropWhile_padStart:
  "\<not> isDigit c \<Longrightarrow> dropWhile isDigit (padStart w k @ c # r) = c # r"
  using all_digits_padStart[of w k] by (simp add: dropWhile_append2 list_all_iff)

lemma int_div_lower: "0 < c \<Longrightarrow> c * (a div c) \<le> (a::int)"
  by (metis mult_div_mod_eq pos_mod_sign add_increasing2 order_refl)

lemma int_div_upper: "0 < c \<Longrightarrow> (a::int) < c * (a div c) + c"
  by (metis mult_div_mod_eq pos_mod_bound add_strict_left_mono)

lemma div_pred:
  fixes y c :: int
  assumes "0 < c"
  shows "y div c = (y - 1) div c + (if y mod c = 0 then 1 else 0)"
proof (cases "y mod c = 0")
  case True
  then have "y = c * (y div c)" by (metis mult_div_mod_eq add.right_neutral)
  then have "y - 1 = c * (y div c - 1) + (c - 1)" by (simp add: algebra_simps)
  then have "(y - 1) div c = y div c - 1"
    using assms by (intro int_div_pos_eq[of _ _ _ "c - 1"]) auto
  with True show ?thesis by simp
next
  case False
  moreover have "0 \<le> y mod c" "y mod c < c" using assms by simp_all
  ultimately have r: "0 \<le> y mod c - 1" "y mod c - 1 < c" by linarith+
  have "y = c * (y div c) + y mod c" by simp
  then have "y - 1 = c * (y div c) + (y mod c - 1)" by linarith
  then have "(y - 1) div c = y div c"
    using r by (rule int_div_pos_eq)
  with False show ?thesis by simp
qed

lemma daysBeforeYear_lower: "146097 * y - 287811690 \<le> 400 * daysBeforeYear y"
proof -
  define a b c where "a = (y - 1) div 4" and "b = (y - 1) div 100" and "c = (y - 1) div 400"
  have "(y - 1) < 4 * a + 4" unfolding a_def by (rule int_div_upper) simp
  moreover have "100 * b \<le> y - 1" unfolding b_def by (rule int_div_lower) simp
  moreover have "(y - 1) < 400 * c + 400" unfolding c_def by (rule int_div_upper) simp
  ultimately have "146097 * y - 287811690 \<le> 146000 * y + 400 * a - 400 * b + 400 * c - 287810800"
    by linarith
  then show ?thesis unfolding daysBeforeYear_def a_def b_def c_def by (simp add: algebra_simps)
qed

lemma daysBeforeYear_upper: "400 * daysBeforeYear y \<le> 146097 * y - 287810490"
proof -
  define a b c where "a = (y - 1) div 4" and "b = (y - 1) div 100" and "c = (y - 1) div 400"
  have "4 * a \<le> y - 1" unfolding a_def by (rule int_div_lower) simp
  moreover have "(y - 1) < 100 * b + 100" unfolding b_def by (rule int_div_upper) simp
  moreover have "400 * c \<le> y - 1" unfolding c_def by (rule int_div_lower) simp
  ultimately have "146000 * y + 400 * a - 400 * b + 400 * c - 287810800 \<le> 146097 * y - 287810490"
    by linarith
  then show ?thesis unfolding daysBeforeYear_def a_def b_def c_def by (simp add: algebra_simps)
qed

lemma yearOfDays_correct:
  "daysBeforeYear (yearOfDays z) \<le> z \<and> z < daysBeforeYear (yearOfDays z + 1)"
proof -
  define q where "q = (z * 400) div 146097"
  define y0 where "y0 = 1970 + q"
  have a1: "146097 * q \<le> 400 * z"
    using int_div_lower[of 146097 "z * 400"] unfolding q_def by simp
  have a2: "400 * z < 146097 * q + 146097"
    using int_div_upper[of 146097 "z * 400"] unfolding q_def by simp
  define dl dh where "dl = daysBeforeYear (y0 - 1)" and "dh = daysBeforeYear (y0 + 2)"
  have "400 * dl \<le> 146097 * (y0 - 1) - 287810490"
    unfolding dl_def by (rule daysBeforeYear_upper)
  then have "400 * dl \<le> 146097 * q - 145497" unfolding y0_def by (simp add: algebra_simps)
  with a1 have lo: "dl \<le> z" by linarith
  have "146097 * (y0 + 2) - 287811690 \<le> 400 * dh"
    unfolding dh_def by (rule daysBeforeYear_lower)
  then have "146097 * q + 291594 \<le> 400 * dh" unfolding y0_def by (simp add: algebra_simps)
  with a2 have hi: "z < dh" by linarith
  have e: "y0 - 1 + 1 = y0" "y0 + 1 + 1 = y0 + 2" by simp_all
  show ?thesis
    using lo hi unfolding yearOfDays_def y0_def[symmetric] q_def[symmetric] Let_def dl_def dh_def
    by (simp add: e)
qed

lemma leap_step:
  fixes y a b c :: int and p4 p100 p400 :: bool
  assumes "p100 \<Longrightarrow> p4" "p400 \<Longrightarrow> p100"
  shows "365 * (y + 1 - 1970) +
         ((a + (if p4 then 1 else 0)) - (b + (if p100 then 1 else 0)) + (c + (if p400 then 1 else 0))) - 477 =
        365 * (y - 1970) + (a - b + c) - 477 +
        (if p4 \<and> (\<not> p100 \<or> p400) then 366 else 365)"
  using assms by (cases p4; cases p100; cases p400) simp_all

lemma daysBeforeYear_Suc: "daysBeforeYear (y + 1) = daysBeforeYear y + daysInYear y"
proof -
  have "y mod 100 mod 4 = y mod 4" by (rule mod_mod_cancel) simp
  then have m1: "y mod 100 = 0 \<Longrightarrow> y mod 4 = 0" by simp
  have "y mod 400 mod 100 = y mod 100" by (rule mod_mod_cancel) simp
  then have m2: "y mod 400 = 0 \<Longrightarrow> y mod 100 = 0" by simp
  have d4: "y div 4 = (y - 1) div 4 + (if y mod 4 = 0 then 1 else 0)" by (rule div_pred) simp
  have d100: "y div 100 = (y - 1) div 100 + (if y mod 100 = 0 then 1 else 0)" by (rule div_pred) simp
  have d400: "y div 400 = (y - 1) div 400 + (if y mod 400 = 0 then 1 else 0)" by (rule div_pred) simp
  have e: "y + 1 - 1 = y" by simp
  show ?thesis
    unfolding daysBeforeYear_def daysInYear_def isLeapYear_def e
    by (subst d4, subst d100, subst d400, rule leap_step[OF m1 m2])
qed

lemma daysBeforeMonth_simps:
  "daysBeforeMonth y 1 = 0" "daysBeforeMonth y 2 = 31"
  "daysBeforeMonth y 3 = 59 + (if isLeapYear y then 1 else 0)"
  "daysBeforeMonth y 4 = 90 + (if isLeapYear y then 1 else 0)"
  "daysBeforeMonth y 5 = 120 + (if isLeapYear y then 1 else 0)"
  "daysBeforeMonth y 6 = 151 + (if isLeapYear y then 1 else 0)"
  "daysBeforeMonth y 7 = 181 + (if isLeapYear y then 1 else 0)"
  "daysBeforeMonth y 8 = 212 + (if isLeapYear y then 1 else 0)"
  "daysBeforeMonth y 9 = 243 + (if isLeapYear y then 1 else 0)"
  "daysBeforeMonth y 10 = 273 + (if isLeapYear y then 1 else 0)"
  "daysBeforeMonth y 11 = 304 + (if isLeapYear y then 1 else 0)"
  "daysBeforeMonth y 12 = 334 + (if isLeapYear y then 1 else 0)"
  by (simp_all add: daysBeforeMonth_def)

lemma daysInMonth_simps:
  "daysInMonth y 1 = 31" "daysInMonth y 2 = (if isLeapYear y then 29 else 28)"
  "daysInMonth y 3 = 31" "daysInMonth y 4 = 30" "daysInMonth y 5 = 31" "daysInMonth y 6 = 30"
  "daysInMonth y 7 = 31" "daysInMonth y 8 = 31" "daysInMonth y 9 = 30" "daysInMonth y 10 = 31"
  "daysInMonth y 11 = 30" "daysInMonth y 12 = 31"
  by (simp_all add: daysInMonth_def)

lemma monthOfDayOfYear_correct:
  assumes "0 \<le> n" "n < daysInYear y"
  shows "1 \<le> monthOfDayOfYear y n \<and> monthOfDayOfYear y n \<le> 12
    \<and> daysBeforeMonth y (monthOfDayOfYear y n) \<le> n
    \<and> n < daysBeforeMonth y (monthOfDayOfYear y n) + daysInMonth y (monthOfDayOfYear y n)"
proof (cases "isLeapYear y")
  case True
  with assms show ?thesis
    unfolding monthOfDayOfYear_def daysInYear_def
    by (simp add: daysBeforeMonth_simps daysInMonth_simps)
next
  case False
  with assms show ?thesis
    unfolding monthOfDayOfYear_def daysInYear_def
    by (simp add: daysBeforeMonth_simps daysInMonth_simps)
qed


lemma civilFromDays_correct:
  assumes "civilFromDays z = (y, m, d)"
  shows "1 \<le> m \<and> m \<le> 12 \<and> 1 \<le> d \<and> d \<le> daysInMonth y m \<and> daysFromCivil y m d = z"
proof -
  have y: "y = yearOfDays z" and m: "m = monthOfDayOfYear y (z - daysBeforeYear y)"
    and d: "d = z - daysBeforeYear y - daysBeforeMonth y m + 1"
    using assms unfolding civilFromDays_def Let_def by auto
  have "daysBeforeYear y \<le> z" "z < daysBeforeYear y + daysInYear y"
    using yearOfDays_correct[of z] daysBeforeYear_Suc[of y] y by simp_all
  then have "0 \<le> z - daysBeforeYear y" "z - daysBeforeYear y < daysInYear y" by linarith+
  from monthOfDayOfYear_correct[OF this] show ?thesis
    unfolding m[symmetric] d daysFromCivil_def by linarith
qed

lemma not_digit_punct:
  "\<not> isDigit CHR ''-''" "\<not> isDigit CHR ''+''" "\<not> isDigit CHR '':''" "\<not> isDigit CHR ''.''"
  "\<not> isDigit CHR ''Z''" "\<not> isDigit CHR ''T''"
  by (simp_all add: isDigit_def)

lemma padStart_head: "0 < w \<Longrightarrow> \<exists>c cs. padStart w k = c # cs \<and> isDigit c"
proof -
  assume "0 < w"
  then have "padStart w k \<noteq> []" using length_padStart_ge[of w k] by auto
  then obtain c cs where e: "padStart w k = c # cs" by (cases "padStart w k") auto
  moreover have "isDigit c" using all_digits_padStart[of w k] unfolding e by simp
  ultimately show ?thesis by blast
qed

lemma parseYear_formatYear:
  "parseYear (formatYear y @ CHR ''-'' # r) = Some (y, CHR ''-'' # r)"
proof (cases "0 \<le> y \<and> y \<le> 9999")
  case True
  obtain c cs where e: "padStart 4 (nat y) = c # cs" and c: "isDigit c"
    using padStart_head[of 4 "nat y"] by auto
  have n: "c \<noteq> CHR ''+''" "c \<noteq> CHR ''-''" using c not_digit_punct by auto
  have "nat y < 10000" using True by linarith
  then have "nat y < 10 ^ 4" by simp
  then have t: "takeDigits 4 (padStart 4 (nat y) @ CHR ''-'' # r) = Some (nat y, CHR ''-'' # r)"
    by (rule takeDigits_padStart) simp
  have "parseYear (c # cs @ CHR ''-'' # r) = Some (y, CHR ''-'' # r)"
    unfolding parseYear_def using n t[unfolded e] True by simp
  then show ?thesis using True by (simp add: formatYear_def e)
next
  case False
  define n where "n = nat \<bar>y\<bar>"
  have tw: "takeWhile isDigit (padStart 6 n @ CHR ''-'' # r) = padStart 6 n"
    by (rule takeWhile_padStart) (rule not_digit_punct)
  have dw: "dropWhile isDigit (padStart 6 n @ CHR ''-'' # r) = CHR ''-'' # r"
    by (rule dropWhile_padStart) (rule not_digit_punct)
  have len: "\<not> length (padStart 6 n) < 6" using length_padStart_ge[of 6 n] by simp
  show ?thesis
  proof (cases "y < 0")
    case True
    then have "formatYear y @ CHR ''-'' # r = CHR ''-'' # padStart 6 n @ CHR ''-'' # r"
      by (simp add: formatYear_def n_def)
    moreover have "- int n = y" using True by (simp add: n_def)
    ultimately show ?thesis
      by (simp add: parseYear_def tw dw len digitsVal_padStart Let_def)
  next
    case False
    with \<open>\<not> (0 \<le> y \<and> y \<le> 9999)\<close> have "9999 < y" by simp
    then have "formatYear y @ CHR ''-'' # r = CHR ''+'' # padStart 6 n @ CHR ''-'' # r"
      by (simp add: formatYear_def n_def)
    moreover have "int n = y" using \<open>9999 < y\<close> by (simp add: n_def)
    ultimately show ?thesis
      by (simp add: parseYear_def tw dw len digitsVal_padStart Let_def)
  qed
qed

lemma parseFraction_padStart:
  assumes "k < 1000"
  shows "parseFraction (CHR ''.'' # padStart 3 k @ ''Z'') = Some (int k, ''Z'')"
proof -
  have tw: "takeWhile isDigit (padStart 3 k @ CHR ''Z'' # []) = padStart 3 k"
    by (rule takeWhile_padStart) (rule not_digit_punct)
  have dw: "dropWhile isDigit (padStart 3 k @ CHR ''Z'' # []) = CHR ''Z'' # []"
    by (rule dropWhile_padStart) (rule not_digit_punct)
  have len: "length (padStart 3 k) = 3" using assms by (intro length_padStart) simp
  then have ne: "padStart 3 k \<noteq> []" by auto
  have tk: "take 3 (padStart 3 k @ ''000'') = padStart 3 k" using len by simp
  show ?thesis
    unfolding parseFraction_def Let_def list.case tw dw tk
    using ne by (simp add: digitsVal_padStart)
qed

lemma parseTime_format:
  assumes "h < 24" "mi < 60" "s < 60" "ms < 1000"
  shows "parseTime z (CHR ''T'' # padStart 2 h @ CHR '':'' # padStart 2 mi @ CHR '':'' #
           padStart 2 s @ CHR ''.'' # padStart 3 ms @ ''Z'')
         = Some (int h * MS_PER_HOUR + int mi * MS_PER_MINUTE + int s * 1000 + int ms, 0)"
proof -
  have th: "\<And>r. takeDigits 2 (padStart 2 h @ r) = Some (h, r)"
    using assms by (intro takeDigits_padStart) simp_all
  have tm: "\<And>r. takeDigits 2 (padStart 2 mi @ r) = Some (mi, r)"
    using assms by (intro takeDigits_padStart) simp_all
  have ts: "\<And>r. takeDigits 2 (padStart 2 s @ r) = Some (s, r)"
    using assms by (intro takeDigits_padStart) simp_all
  have sec: "parseSeconds (CHR '':'' # padStart 2 s @ CHR ''.'' # padStart 3 ms @ ''Z'')
             = Some (int s, int ms, ''Z'')"
    by (simp add: parseSeconds_def ts parseFraction_padStart[OF assms(4)])
  have off: "parseOffset z ''Z'' = Some 0" by (simp add: parseOffset_def)
  show ?thesis
    using assms by (simp add: parseTime_def th tm expectChar_def sec off)
qed

lemma time_of_day_fields:
  fixes r :: int
  assumes "0 \<le> r" "r < 86400000"
  shows "0 \<le> r div 3600000 \<and> r div 3600000 < 24
       \<and> 0 \<le> r mod 3600000 div 60000 \<and> r mod 3600000 div 60000 < 60
       \<and> 0 \<le> r mod 60000 div 1000 \<and> r mod 60000 div 1000 < 60
       \<and> 0 \<le> r mod 1000 \<and> r mod 1000 < 1000
       \<and> (r div 3600000) * 3600000 + (r mod 3600000 div 60000) * 60000
           + (r mod 60000 div 1000) * 1000 + r mod 1000 = r"
proof -
  define q1 r1 where "q1 = r div 3600000" and "r1 = r mod 3600000"
  define q2 r2 where "q2 = r1 div 60000" and "r2 = r1 mod 60000"
  define q3 r3 where "q3 = r2 div 1000" and "r3 = r2 mod 1000"
  have e1: "r = 3600000 * q1 + r1" and b1: "0 \<le> r1" "r1 < 3600000"
    unfolding q1_def r1_def by simp_all
  have e2: "r1 = 60000 * q2 + r2" and b2: "0 \<le> r2" "r2 < 60000"
    unfolding q2_def r2_def by simp_all
  have e3: "r2 = 1000 * q3 + r3" and b3: "0 \<le> r3" "r3 < 1000"
    unfolding q3_def r3_def by simp_all
  have m2: "r2 = r mod 60000" unfolding r2_def r1_def by (rule mod_mod_cancel) simp
  have m3: "r3 = r mod 1000" unfolding r3_def m2 by (rule mod_mod_cancel) simp
  have "0 \<le> q1 \<and> q1 < 24 \<and> 0 \<le> q2 \<and> q2 < 60 \<and> 0 \<le> q3 \<and> q3 < 60 \<and> 0 \<le> r3 \<and> r3 < 1000
     \<and> q1 * 3600000 + q2 * 60000 + q3 * 1000 + r3 = r"
    using e1 b1 e2 b2 e3 b3 assms by linarith
  then show ?thesis
    unfolding q3_def m3 m2 q2_def r1_def q1_def .
qed

lemma fromISO_toISO: "fromISO z (toISO t) = Some t"
proof -
  obtain y m d where c: "civilFromDays (t div MS_PER_DAY) = (y, m, d)"
    by (cases "civilFromDays (t div MS_PER_DAY)") auto
  note cc = civilFromDays_correct[OF c]
  define r where "r = t mod MS_PER_DAY"
  have r: "0 \<le> r" "r < 86400000" by (simp_all add: r_def MS_PER_DAY_def)
  define qh qm qs qms where "qh = r div 3600000" and "qm = r mod 3600000 div 60000"
    and "qs = r mod 60000 div 1000" and "qms = r mod 1000"
  have f: "0 \<le> qh \<and> qh < 24 \<and> 0 \<le> qm \<and> qm < 60 \<and> 0 \<le> qs \<and> qs < 60 \<and> 0 \<le> qms \<and> qms < 1000
       \<and> qh * 3600000 + qm * 60000 + qs * 1000 + qms = r"
    unfolding qh_def qm_def qs_def qms_def by (rule time_of_day_fields[OF r])
  define h mi s ms where "h = nat qh" and "mi = nat qm" and "s = nat qs" and "ms = nat qms"
  have b: "h < 24" "mi < 60" "s < 60" "ms < 1000"
    using f unfolding h_def mi_def s_def ms_def by linarith+
  have i: "int h = qh" "int mi = qm" "int s = qs" "int ms = qms"
    using f unfolding h_def mi_def s_def ms_def by linarith+
  have tod: "int h * MS_PER_HOUR + int mi * MS_PER_MINUTE + int s * 1000 + int ms = r"
    unfolding i MS_PER_HOUR_def MS_PER_MINUTE_def using f by linarith
  define s5 where "s5 = CHR ''T'' # padStart 2 h @ CHR '':'' # padStart 2 mi @ CHR '':'' #
      padStart 2 s @ CHR ''.'' # padStart 3 ms @ ''Z''"
  define s3 where "s3 = CHR ''-'' # padStart 2 (nat d) @ s5"
  define s1 where "s1 = CHR ''-'' # padStart 2 (nat m) @ s3"
  have iso: "toISO t = formatYear y @ s1"
    unfolding toISO_def Let_def c r_def[symmetric] h_def mi_def s_def ms_def
      qh_def qm_def qs_def qms_def MS_PER_HOUR_def MS_PER_MINUTE_def s1_def s3_def s5_def
    by simp
  have dm: "d \<le> 31" using cc by (auto simp: daysInMonth_def split: if_splits)
  have nm: "nat m < 10 ^ 2" "nat d < 10 ^ 2" using cc dm by simp_all linarith+
  have p1: "parseYear (formatYear y @ s1) = Some (y, s1)"
    unfolding s1_def by (rule parseYear_formatYear)
  have p2: "expectChar CHR ''-'' s1 = Some (padStart 2 (nat m) @ s3)"
    unfolding s1_def expectChar_def by simp
  have p3: "takeDigits 2 (padStart 2 (nat m) @ s3) = Some (nat m, s3)"
    by (rule takeDigits_padStart[OF nm(1)]) simp
  have p4: "expectChar CHR ''-'' s3 = Some (padStart 2 (nat d) @ s5)"
    unfolding s3_def expectChar_def by simp
  have p5: "takeDigits 2 (padStart 2 (nat d) @ s5) = Some (nat d, s5)"
    by (rule takeDigits_padStart[OF nm(2)]) simp
  have p6: "parseTime z s5 = Some (r, 0)"
    unfolding s5_def parseTime_format[OF b] tod ..
  have "t = (t div MS_PER_DAY) * MS_PER_DAY + r" by (simp add: r_def)
  then have fin: "daysFromCivil y m d * MS_PER_DAY + r = t" using cc by simp
  have v: "1 \<le> nat m" "nat m \<le> 12" "1 \<le> nat d" "int (nat m) = m" "int (nat d) = d"
    using cc by linarith+
  have v2: "d \<le> daysInMonth y m" using cc by simp
  have "fromISO z (formatYear y @ s1) =
     (if 1 \<le> nat m \<and> nat m \<le> 12 \<and> 1 \<le> nat d \<and> int (nat d) \<le> daysInMonth y (int (nat m))
      then Some (daysFromCivil y (int (nat m)) (int (nat d)) * MS_PER_DAY + r - 0 * MS_PER_MINUTE)
      else None)"
    unfolding fromISO_def p1 option.case prod.case p2 p3 p4 p5 p6 ..
  also have "\<dots> = Some t"
    unfolding v(4,5) using v(1,2,3) v2 fin by simp
  finally show ?thesis unfolding iso .
qed

section \<open>Properties of days and clock times\<close>

lemma startOfDay_le: "startOfDay z t \<le> t"
  unfolding startOfDay_def MS_PER_DAY_def by simp






lemma minute_nonneg: "0 \<le> minute z t"
  unfolding minute_def MS_PER_HOUR_def MS_PER_MINUTE_def
  by (simp add: pos_imp_zdiv_nonneg_iff)


lemma setClock_None: "setClock z None text = Inr None"
  by (simp add: setClock_def)



section \<open>Properties of the window builder\<close>

subsection \<open>The sorted copy\<close>

lemma sortedCopy_length:
  assumes "conforming engine"
  shows "length (sortedCopy engine slots) = length slots"
  using assms unfolding conforming_def sortedCopy_def by simp

lemma sortedCopy_set:
  assumes "conforming engine"
  shows "set (sortedCopy engine slots) = set slots"
proof -
  let ?ts = "map (\<lambda>s. dateParse engine (start_time s)) slots"
  from assms have "set (sortOrder engine ?ts) = {..<length slots}"
    unfolding conforming_def by (metis length_map)
  then have "set (sortedCopy engine slots) = (!) slots ` {..<length slots}"
    unfolding sortedCopy_def by simp
  also have "\<dots> = set slots" by (auto simp: set_conv_nth)
  finally show ?thesis .
qed

lemma sortedCopy_single:
  assumes "conforming engine"
  shows "sortedCopy engine [s] = [s]"
proof -
  from sortedCopy_length[OF assms, of "[s]"] obtain x where x: "sortedCopy engine [s] = [x]"
    by (cases "sortedCopy engine [s]") auto
  with sortedCopy_set[OF assms, of "[s]"] show ?thesis by simp
qed

lemma length_insertIndex: "length (insertIndex ts i js) = Suc (length js)"
  by (induction js) simp_all

lemma set_insertIndex: "set (insertIndex ts i js) = insert i (set js)"
  by (induction js) auto

lemma insertionOrder_indices:
  "length (foldr (insertIndex ts) xs []) = length xs"
  "set (foldr (insertIndex ts) xs []) = set xs"
  by (induction xs) (simp_all add: length_insertIndex set_insertIndex)

lemma referenceEngine_conforming: "conforming referenceEngine"
  unfolding conforming_def referenceEngine_def insertionOrder_def
  by (auto simp: insertionOrder_indices)

subsection \<open>The groups\<close>

lemma jsSlice_take_drop:
  assumes "0 \<le> i" "0 < n" "i \<le> int (length xs) - n"
  shows "jsSlice xs i (i + n) = take (nat n) (drop (nat i) xs)"
    and "length (jsSlice xs i (i + n)) = nat n"
proof -
  have a: "min i (int (length xs)) = i" "min (i + n) (int (length xs)) = i + n"
    "\<not> i < 0" "\<not> i + n < 0" using assms by linarith+
  have "nat (i + n - i) = nat n" by simp
  then show e: "jsSlice xs i (i + n) = take (nat n) (drop (nat i) xs)"
    by (simp only: jsSlice_def Let_def a if_False)
  have "nat i + nat n \<le> length xs" using assms by linarith
  then show "length (jsSlice xs i (i + n)) = nat n" unfolding e by simp
qed

lemma set_jsSlice: "set (jsSlice xs a b) \<subseteq> set xs"
  unfolding jsSlice_def Let_def by (meson set_drop_subset set_take_subset subset_trans)

lemma windowLoop_emits:
  assumes "windowLoop p slots needed i acc = Inr ws" "w \<in> set ws"
  shows "w \<in> set acc \<or>
    (\<exists>j. i \<le> j \<and> j \<le> int (length slots) - needed
         \<and> windowOfGroup p (jsSlice slots j (j + needed)) = Inr (Some w))"
  using assms
proof (induction p slots needed i acc rule: windowLoop.induct)
  case (1 p slots needed i windows)
  show ?case
  proof (cases "i \<le> int (length slots) - needed")
    case False
    with "1.prems" show ?thesis by (simp add: windowLoop.simps[of p slots needed i windows])
  next
    case True
    note loop = windowLoop.simps[of p slots needed i windows]
    show ?thesis
    proof (cases "windowOfGroup p (jsSlice slots i (i + needed))")
      case (Inl e)
      with True "1.prems" show ?thesis by (simp add: loop)
    next
      case (Inr r)
      show ?thesis
      proof (cases r)
        case None
        with Inr True "1.prems" have "windowLoop p slots needed (i + 1) windows = Inr ws"
          by (simp add: loop)
        from "1.IH"(1)[OF True Inr None this "1.prems"(2)] show ?thesis
          by (metis add_le_imp_le_right le_add1 zle_add1_eq_le order_less_imp_le order_trans zless_add1_eq)
      next
        case (Some w')
        with Inr True "1.prems" have "windowLoop p slots needed (i + 1) (windows @ [w']) = Inr ws"
          by (simp add: loop)
        from "1.IH"(2)[OF True Inr Some this "1.prems"(2)] consider
          "w \<in> set windows" | "w = w'" |
          j where "i + 1 \<le> j" "j \<le> int (length slots) - needed"
            "windowOfGroup p (jsSlice slots j (j + needed)) = Inr (Some w)"
          by auto
        then show ?thesis
        proof cases
          case 1 then show ?thesis by simp
        next
          case 2 with Inr Some True show ?thesis by auto
        next
          case 3
          then have "i \<le> j" by linarith
          with 3 show ?thesis by blast
        qed
      qed
    qed
  qed
qed

text \<open>The loop does not run when the list is shorter than \<open>needed\<close>.\<close>

lemma windowLoop_short:
  assumes "int (length slots) < needed" "0 \<le> i"
  shows "windowLoop p slots needed i windows = Inr windows"
  using assms by (subst windowLoop.simps) simp

lemma windowOfGroup_Some:
  assumes "windowOfGroup p grp = Inr (Some w)"
  shows "\<exists>g0 rest closeDt. grp = g0 # rest
    \<and> (\<forall>x\<in>set grp. is_available x)
    \<and> isConsecutive (slotStepMinutes p) (map (\<lambda>s. fromISO 0 (start_time s)) grp)
    \<and> w = \<lparr>start_time = map_option toISO (fromISO 0 (start_time g0)),
            end_time = map_option toISO
              (map_option (\<lambda>t. plusMinutes t (durationMinutes p)) (fromISO 0 (start_time g0))),
            slot_ids = map id' grp\<rparr>
    \<and> (\<forall>t. fromISO 0 (start_time g0) = Some t \<longrightarrow>
          \<not> leadTimeRejects (timezone p) (slotStepMinutes p)
              (map_option (\<lambda>n. plusMinutes n (minLead p)) (fromISO (timezone p) (now p))) t)
    \<and> setClock (timezone p) (fromISO 0 (start_time g0)) (closingTime p) = Inr closeDt
    \<and> \<not> before closeDt
          (map_option (\<lambda>t. plusMinutes t (durationMinutes p)) (fromISO 0 (start_time g0)))"
proof (cases grp)
  case Nil
  with assms show ?thesis by (simp add: windowOfGroup_def)
next
  case (Cons g0 rest)
  from assms show ?thesis
    unfolding windowOfGroup_def Cons Let_def
    by (auto simp: list_ex_iff split: if_splits sum.splits option.splits)
qed

lemma isConsecutive_nth:
  "isConsecutive step ts \<Longrightarrow> Suc k < length ts \<Longrightarrow>
     \<exists>a b. ts ! k = Some a \<and> ts ! Suc k = Some b \<and> b - a = step * MS_PER_MINUTE"
proof (induction step ts arbitrary: k rule: isConsecutive.induct)
  case (1 step a b rest)
  then show ?case by (cases k) (auto split: option.splits)
qed simp_all

lemma builder_emits:
  assumes "buildServiceWindowsFromBaseSlots engine p = Inr ws" "w \<in> set ws"
  shows "\<exists>needed j. ceilDiv (durationMinutes p) (slotStepMinutes p) = Finite needed
     \<and> 0 \<le> j \<and> j \<le> int (length (sortedCopy engine (baseSlots p))) - needed
     \<and> windowOfGroup p (jsSlice (sortedCopy engine (baseSlots p)) j (j + needed))
         = Inr (Some w)"
proof -
  let ?slots = "sortedCopy engine (baseSlots p)"
  from assms have ne: "?slots \<noteq> []"
    by (auto simp: buildServiceWindowsFromBaseSlots_def buildFromSorted_def split: if_splits)
  from assms ne obtain needed where
    n: "ceilDiv (durationMinutes p) (slotStepMinutes p) = Finite needed"
    and l: "windowLoop p ?slots needed 0 [] = Inr ws"
    by (auto simp: buildServiceWindowsFromBaseSlots_def buildFromSorted_def
        split: jsnumber.splits if_splits)
  from windowLoop_emits[OF l assms(2)] n show ?thesis by auto
qed

lemma ceilDiv_pos:
  assumes "0 < a" "0 < b"
  shows "ceilDiv a b = Finite ((a + b - 1) div b)" and "0 < (a + b - 1) div b"
proof -
  have "- ((- a) div b) = (a + b - 1) div b"
  proof -
    have "(a + b - 1) div b = (a - 1) div b + 1"
      using assms by (metis add.commute add_diff_eq div_add_self1 less_irrefl)
    moreover have "(- a) div b = - ((a - 1) div b) - 1"
      using assms by (simp add: zdiv_zminus1_eq_if div_pred[of b a])
    ultimately show ?thesis by simp
  qed
  then show "ceilDiv a b = Finite ((a + b - 1) div b)" using assms by (simp add: ceilDiv_def)
  have "b \<le> a + b - 1" using assms by simp
  then show "0 < (a + b - 1) div b" using assms
    by (simp add: pos_imp_zdiv_pos_iff)
qed

text \<open>
  With \<open>needed\<close> zero or negative the loop reaches an empty group, for which
  \<open>group[0].start_time\<close> throws: no window is returned.
\<close>

lemma jsSlice_at_end: "jsSlice xs (int (length xs)) e = []"
  unfolding jsSlice_def Let_def by simp

lemma windowOfGroup_empty: "windowOfGroup p [] = Inl TypeError"
  by (simp add: windowOfGroup_def)

lemma windowLoop_nonpositive:
  assumes "needed \<le> 0" "0 \<le> i" "i \<le> int (length slots)"
  shows "\<exists>e. windowLoop p slots needed i windows = Inl e"
  using assms
proof (induction p slots needed i windows rule: windowLoop.induct)
  case (1 p slots needed i windows)
  from "1.prems" have True: "i \<le> int (length slots) - needed" by linarith
  note loop = windowLoop.simps[of p slots needed i windows]
  show ?case
  proof (cases "windowOfGroup p (jsSlice slots i (i + needed))")
    case (Inl e)
    with True show ?thesis by (simp add: loop)
  next
    case (Inr r)
    have "i \<noteq> int (length slots)"
    proof
      assume "i = int (length slots)"
      with Inr show False by (simp add: jsSlice_at_end windowOfGroup_empty)
    qed
    with "1.prems" have n: "0 \<le> i + 1" "i + 1 \<le> int (length slots)" by linarith+
    show ?thesis
    proof (cases r)
      case None
      from "1.IH"(1)[OF True Inr None "1.prems"(1) n] obtain e where
        "windowLoop p slots needed (i + 1) windows = Inl e" by blast
      with True Inr None show ?thesis by (simp add: loop)
    next
      case (Some w)
      from "1.IH"(2)[OF True Inr Some "1.prems"(1) n] obtain e where
        "windowLoop p slots needed (i + 1) (windows @ [w]) = Inl e" by blast
      with True Inr Some show ?thesis by (simp add: loop)
    qed
  qed
qed

text \<open>The group behind a window: \<open>needed\<close> slots of the sorted copy.\<close>

lemma builder_window:
  assumes "buildServiceWindowsFromBaseSlots engine p = Inr ws" "w \<in> set ws"
  shows "\<exists>grp needed. ceilDiv (durationMinutes p) (slotStepMinutes p) = Finite needed
    \<and> 0 < needed \<and> int (length grp) = needed
    \<and> windowOfGroup p grp = Inr (Some w)
    \<and> set grp \<subseteq> set (sortedCopy engine (baseSlots p))"
proof -
  let ?slots = "sortedCopy engine (baseSlots p)"
  from assms have ne: "?slots \<noteq> []"
    by (auto simp: buildServiceWindowsFromBaseSlots_def buildFromSorted_def split: if_splits)
  from assms ne obtain needed where
    n: "ceilDiv (durationMinutes p) (slotStepMinutes p) = Finite needed"
    and l: "windowLoop p ?slots needed 0 [] = Inr ws"
    by (auto simp: buildServiceWindowsFromBaseSlots_def buildFromSorted_def
        split: jsnumber.splits if_splits)
  have pos: "0 < needed"
  proof (rule ccontr)
    assume "\<not> 0 < needed"
    then have "needed \<le> 0" by simp
    from windowLoop_nonpositive[OF this, of 0 ?slots p "[]"] l show False by simp
  qed
  from windowLoop_emits[OF l assms(2)] obtain j where
    j: "0 \<le> j" "j \<le> int (length ?slots) - needed"
    and g: "windowOfGroup p (jsSlice ?slots j (j + needed)) = Inr (Some w)"
    by auto
  define grp where "grp = jsSlice ?slots j (j + needed)"
  from jsSlice_take_drop(2)[OF j(1) pos j(2)] pos
  have len: "int (length grp) = needed" unfolding grp_def by simp
  have sub: "set grp \<subseteq> set ?slots"
    using set_jsSlice[of ?slots j "j + needed"] unfolding grp_def by simp
  with len n pos g show ?thesis unfolding grp_def[symmetric] by blast
qed

subsection \<open>The field \<open>baseSlots\<close> is read once\<close>

lemma windowOfGroup_baseSlots:
  "windowOfGroup (p\<lparr>baseSlots := bs\<rparr>) grp = windowOfGroup p grp"
  by (simp add: windowOfGroup_def minLead_def cong: if_cong list.case_cong option.case_cong)

lemma windowLoop_baseSlots:
  "windowLoop (p\<lparr>baseSlots := bs\<rparr>) slots needed i windows
     = windowLoop p slots needed i windows"
proof (induction p slots needed i windows rule: windowLoop.induct)
  case (1 p slots needed i windows)
  show ?case
  proof (cases "i \<le> int (length slots) - needed")
    case True
    show ?thesis
    proof (cases "windowOfGroup p (jsSlice slots i (i + needed))")
      case (Inl e)
      with True show ?thesis
        by (subst windowLoop.simps, subst (2) windowLoop.simps)
          (simp add: windowOfGroup_baseSlots)
    next
      case (Inr opt)
      show ?thesis
      proof (cases opt)
        case None
        with True Inr "1.IH"(1)[OF True Inr None] show ?thesis
          by (subst windowLoop.simps, subst (2) windowLoop.simps)
            (simp add: windowOfGroup_baseSlots)
      next
        case (Some w)
        with True Inr "1.IH"(2)[OF True Inr Some] show ?thesis
          by (subst windowLoop.simps, subst (2) windowLoop.simps)
            (simp add: windowOfGroup_baseSlots)
      qed
    qed
  next
    case False
    then show ?thesis
      by (subst windowLoop.simps, subst (2) windowLoop.simps) simp
  qed
qed

lemma buildFromSorted_baseSlots:
  "buildFromSorted (p\<lparr>baseSlots := bs\<rparr>) slots = buildFromSorted p slots"
  unfolding buildFromSorted_def
  by (simp add: windowLoop_baseSlots del: windowLoop.simps split: jsnumber.splits)

section \<open>Properties of the generators\<close>

text \<open>What the inner loop of the direct generator pushes for a slot starting at \<open>t\<close>.\<close>

lemma serviceSlotLoop_emits:
  assumes "serviceSlotLoop params fromDt toDt nowWithLead dayEnd dayClosing slotStart windows
           = Some ws"
  shows "\<forall>w\<in>set ws. w \<in> set windows \<or>
     (\<exists>t. w = \<lparr>start_time = toISO t, end_time = toISO (plusMinutes t (duration params)),
                slot_ids = [''virtual-'' @ toISO t]\<rparr>
        \<and> fromDt \<le> t \<and> t \<le> toDt \<and> isFuture (timezone' params) nowWithLead t
        \<and> toISO t \<notin> occupiedStartTimes params
        \<and> t < dayEnd \<and> \<not> before dayClosing (Some (plusMinutes t (duration params)))
        \<and> (0 < duration params \<longrightarrow> slotStart \<le> t))"
  using assms
proof (induction rule: serviceSlotLoop.raw_induct[rotated 1, consumes 1])
  case (1 loop params fromDt toDt nowWithLead dayEnd dayClosing slotStart windows ws)
  show ?case
  proof (cases "slotStart < dayEnd")
    case False
    with "1.hyps" show ?thesis by simp
  next
    case True
    define slotEnd where "slotEnd = plusMinutes slotStart (duration params)"
    show ?thesis
    proof (cases "before dayClosing (Some slotEnd)")
      case c: True
      with True "1.hyps" show ?thesis by (simp add: slotEnd_def Let_def)
    next
      case c: False
      define windows' where "windows' =
        (if fromDt \<le> slotStart \<and> slotStart \<le> toDt
            \<and> isFuture (timezone' params) nowWithLead slotStart
            \<and> toISO slotStart \<notin> occupiedStartTimes params
         then windows @
           [\<lparr>start_time = toISO slotStart, end_time = toISO slotEnd,
             slot_ids = [''virtual-'' @ toISO slotStart]\<rparr>]
         else windows)"
      from True c "1.hyps" have
        r: "loop params fromDt toDt nowWithLead dayEnd dayClosing slotEnd windows' = Some ws"
        by (simp add: slotEnd_def Let_def windows'_def split del: if_split cong: if_cong)
      note ih = "1.IH"[OF r]
      have mono: "0 < duration params \<Longrightarrow> slotStart \<le> slotEnd"
        by (simp add: slotEnd_def plusMinutes_def MS_PER_MINUTE_def)
      show ?thesis
      proof
        fix w assume "w \<in> set ws"
        with ih consider "w \<in> set windows'" |
          t where "w = \<lparr>start_time = toISO t, end_time = toISO (plusMinutes t (duration params)),
                slot_ids = [''virtual-'' @ toISO t]\<rparr>"
            "fromDt \<le> t" "t \<le> toDt" "isFuture (timezone' params) nowWithLead t"
            "toISO t \<notin> occupiedStartTimes params"
            "t < dayEnd" "\<not> before dayClosing (Some (plusMinutes t (duration params)))"
            "0 < duration params \<longrightarrow> slotEnd \<le> t"
          by blast
        then show "w \<in> set windows \<or>
          (\<exists>t. w = \<lparr>start_time = toISO t, end_time = toISO (plusMinutes t (duration params)),
                slot_ids = [''virtual-'' @ toISO t]\<rparr>
            \<and> fromDt \<le> t \<and> t \<le> toDt \<and> isFuture (timezone' params) nowWithLead t
            \<and> toISO t \<notin> occupiedStartTimes params
            \<and> t < dayEnd \<and> \<not> before dayClosing (Some (plusMinutes t (duration params)))
            \<and> (0 < duration params \<longrightarrow> slotStart \<le> t))"
        proof cases
          case 1
          then show ?thesis
            using True c unfolding windows'_def slotEnd_def
            by (auto split: if_splits)
        next
          case 2
          then show ?thesis using mono by (intro disjI2 exI[of _ t]) auto
        qed
      qed
    qed
  qed
qed

lemma before_mono:
  assumes "\<not> before c (Some a)" "b \<le> a"
  shows "\<not> before c (Some b)"
  using assms unfolding before_def by (auto split: option.splits)

lemma serviceSlotLoop_diverges:
  assumes "serviceSlotLoop params fromDt toDt nowWithLead dayEnd dayClosing slotStart windows
           = Some ws"
  shows "\<not> (duration params \<le> 0 \<and> slotStart < dayEnd
            \<and> \<not> before dayClosing (Some (plusMinutes slotStart (duration params))))"
  using assms
proof (induction rule: serviceSlotLoop.raw_induct[rotated 1, consumes 1])
  case (1 loop params fromDt toDt nowWithLead dayEnd dayClosing slotStart windows ws)
  show ?case
  proof
    assume a: "duration params \<le> 0 \<and> slotStart < dayEnd
            \<and> \<not> before dayClosing (Some (plusMinutes slotStart (duration params)))"
    define slotEnd where "slotEnd = plusMinutes slotStart (duration params)"
    from a have le: "slotEnd \<le> slotStart"
      unfolding slotEnd_def plusMinutes_def MS_PER_MINUTE_def
      by (simp add: mult_le_0_iff)
    from a "1.hyps" obtain windows' where
      "loop params fromDt toDt nowWithLead dayEnd dayClosing slotEnd windows' = Some ws"
      by (simp add: slotEnd_def Let_def split del: if_split cong: if_cong)
    from "1.IH"[OF this] have
      "\<not> (duration params \<le> 0 \<and> slotEnd < dayEnd
            \<and> \<not> before dayClosing (Some (plusMinutes slotEnd (duration params))))" .
    moreover have "slotEnd < dayEnd" using a le by linarith
    moreover have "plusMinutes slotEnd (duration params) \<le> slotEnd" using a
      unfolding plusMinutes_def MS_PER_MINUTE_def by (simp add: mult_le_0_iff)
    then have "\<not> before dayClosing (Some (plusMinutes slotEnd (duration params)))"
      using a before_mono unfolding slotEnd_def by blast
    ultimately show False using a by blast
  qed
qed

lemma serviceSlotLoop_nonpositive:
  assumes "duration params \<le> 0"
    and "serviceSlotLoop params fromDt toDt nowWithLead dayEnd dayClosing slotStart windows
           = Some ws"
  shows "ws = windows"
proof -
  from serviceSlotLoop_diverges[OF assms(2)] assms(1) have
    c: "\<not> slotStart < dayEnd \<or> before dayClosing (Some (plusMinutes slotStart (duration params)))"
    by auto
  from assms(2) have "(if slotStart < dayEnd then
        (let slotEnd = plusMinutes slotStart (duration params) in
         if before dayClosing (Some slotEnd) then Some windows
         else
           serviceSlotLoop params fromDt toDt nowWithLead dayEnd dayClosing slotEnd
             (if fromDt \<le> slotStart \<and> slotStart \<le> toDt
                 \<and> isFuture (timezone' params) nowWithLead slotStart
                 \<and> toISO slotStart \<notin> occupiedStartTimes params
              then windows @
                [\<lparr>start_time = toISO slotStart, end_time = toISO slotEnd,
                  slot_ids = [''virtual-'' @ toISO slotStart]\<rparr>]
              else windows))
      else Some windows) = Some ws"
    by (subst (asm) serviceSlotLoop.simps)
  with c show ?thesis
    by (cases "slotStart < dayEnd") (simp_all add: Let_def)
qed

lemma serviceSlotLoop_emits_all:
  assumes "serviceSlotLoop params fromDt toDt nowWithLead dayEnd dayClosing slotStart windows
           = Some ws" "w \<in> set ws"
  shows "w \<in> set windows \<or>
     (\<exists>t. w = directWindowAt params t
        \<and> fromDt \<le> t \<and> t \<le> toDt \<and> isFuture (timezone' params) nowWithLead t
        \<and> toISO t \<notin> occupiedStartTimes params
        \<and> t < dayEnd \<and> \<not> before dayClosing (Some (plusMinutes t (duration params)))
        \<and> slotStart \<le> t \<and> 0 < duration params)"
proof (cases "0 < duration params")
  case True
  with serviceSlotLoop_emits[OF assms(1)] assms(2) show ?thesis
    unfolding directWindowAt_def by blast
next
  case False
  then have "duration params \<le> 0" by simp
  from serviceSlotLoop_nonpositive[OF this assms(1)] assms(2) show ?thesis by simp
qed

lemma windowsOfDay_emits:
  assumes "windowsOfDay params fromDt toDt nowWithLead dayEnd dayClosing dayStart windows
           = Some ws" "w \<in> set ws"
  shows "w \<in> set windows \<or>
     (\<exists>dayStart' dayEnd' t. dayStart = Some dayStart' \<and> dayEnd = Some dayEnd'
        \<and> w = directWindowAt params t
        \<and> fromDt \<le> t \<and> t \<le> toDt \<and> isFuture (timezone' params) nowWithLead t
        \<and> toISO t \<notin> occupiedStartTimes params
        \<and> t < dayEnd' \<and> \<not> before dayClosing (Some (plusMinutes t (duration params)))
        \<and> dayStart' \<le> t \<and> 0 < duration params)"
proof (cases dayStart)
  case None
  with assms show ?thesis by (simp add: windowsOfDay_def)
next
  case s: (Some dayStart')
  show ?thesis
  proof (cases dayEnd)
    case None
    with s assms show ?thesis by (simp add: windowsOfDay_def)
  next
    case e: (Some dayEnd')
    with s assms(1) have
      "serviceSlotLoop params fromDt toDt nowWithLead dayEnd' dayClosing dayStart' windows
         = Some ws" by (simp add: windowsOfDay_def)
    from serviceSlotLoop_emits_all[OF this assms(2)] s e show ?thesis by blast
  qed
qed

lemma plusDays_plusDays: "plusDays (plusDays t 1) k = plusDays t (k + 1)"
  by (simp add: plusDays_def algebra_simps)

lemma serviceDayLoop_emits:
  assumes "serviceDayLoop params availabilities fromDt toDt nowWithLead endDate currentDate
             windows = Some r"
  shows "\<forall>ws. r = Inr ws \<longrightarrow> (\<forall>w\<in>set ws. w \<in> set windows \<or>
     (\<exists>k av t. 0 \<le> k \<and> av \<in> set availabilities \<and> w = directWindowAt params t
        \<and> directSlotOn params fromDt toDt nowWithLead (plusDays currentDate k) av t))"
  using assms
proof (induction rule: serviceDayLoop.raw_induct[rotated 1, consumes 1])
  case (1 loop params availabilities fromDt toDt nowWithLead endDate currentDate windows r)
  let ?E = "\<lambda>cur w. \<exists>k av t. 0 \<le> k \<and> av \<in> set availabilities \<and> w = directWindowAt params t
        \<and> directSlotOn params fromDt toDt nowWithLead (plusDays cur k) av t"
  have shift: "?E (plusDays currentDate 1) w \<Longrightarrow> ?E currentDate w" for w
  proof -
    assume "?E (plusDays currentDate 1) w"
    then obtain k av t where k: "0 \<le> k" "av \<in> set availabilities" "w = directWindowAt params t"
      "directSlotOn params fromDt toDt nowWithLead (plusDays (plusDays currentDate 1) k) av t"
      by blast
    then have "directSlotOn params fromDt toDt nowWithLead (plusDays currentDate (k + 1)) av t"
      by (simp add: plusDays_plusDays)
    with k(1,2,3) show "?E currentDate w"
      by (intro exI[of _ "k + 1"] exI[of _ av] exI[of _ t]) simp
  qed
  show ?case
  proof (cases "currentDate \<le> endDate")
    case False
    with "1.hyps" show ?thesis by auto
  next
    case True
    show ?thesis
    proof (cases "find (\<lambda>av. day_of_week av = dayOfWeek (timezone' params) currentDate)
                    availabilities")
      case None
      with True "1.hyps" have
        "loop params availabilities fromDt toDt nowWithLead endDate (plusDays currentDate 1)
           windows = Some r" by simp
      from "1.IH"[OF this] shift show ?thesis by blast
    next
      case (Some av)
      then have avin: "av \<in> set availabilities"
        by (auto simp: find_Some_iff)
      show ?thesis
      proof (cases "setClock (timezone' params) (Some currentDate) (start_time av)")
        case (Inl e)
        with True Some "1.hyps" show ?thesis by auto
      next
        case ds: (Inr dayStart)
        show ?thesis
        proof (cases "setClock (timezone' params) (Some currentDate) (end_time av)")
          case (Inl e)
          with True Some ds "1.hyps" show ?thesis by auto
        next
          case de: (Inr dayEnd)
          show ?thesis
          proof (cases "setClock (timezone' params) (Some currentDate) (closingTime' params)")
            case (Inl e)
            with True Some ds de "1.hyps" show ?thesis by auto
          next
            case dc: (Inr dayClosing)
            show ?thesis
            proof (cases "windowsOfDay params fromDt toDt nowWithLead dayEnd dayClosing
                            dayStart windows")
              case None
              with True Some ds de dc "1.hyps" show ?thesis by simp
            next
              case sl: (Some windows')
              with True Some ds de dc "1.hyps" have
                "loop params availabilities fromDt toDt nowWithLead endDate
                   (plusDays currentDate 1) windows' = Some r" by simp
              note ih = "1.IH"[OF this]
              have today: "w \<in> set windows' \<Longrightarrow> w \<in> set windows \<or> ?E currentDate w" for w
              proof -
                assume "w \<in> set windows'"
                from windowsOfDay_emits[OF sl this] consider "w \<in> set windows" |
                  dayStart' dayEnd' t where "dayStart = Some dayStart'" "dayEnd = Some dayEnd'"
                    "w = directWindowAt params t" "fromDt \<le> t" "t \<le> toDt"
                    "isFuture (timezone' params) nowWithLead t"
                    "toISO t \<notin> occupiedStartTimes params" "t < dayEnd'"
                    "\<not> before dayClosing (Some (plusMinutes t (duration params)))"
                    "dayStart' \<le> t" "0 < duration params"
                  by blast
                then show ?thesis
                proof cases
                  case 1 then show ?thesis by simp
                next
                  case 2
                  then have "directSlotOn params fromDt toDt nowWithLead (plusDays currentDate 0) av t"
                    unfolding directSlotOn_def using ds de dc by (simp add: plusDays_def)
                  with 2(3) avin show ?thesis
                    by (intro disjI2 exI[of _ 0] exI[of _ av] exI[of _ t]) simp
                qed
              qed
              show ?thesis
              proof (intro allI impI ballI)
                fix ws w assume "r = Inr ws" "w \<in> set ws"
                with ih have "w \<in> set windows' \<or> ?E (plusDays currentDate 1) w" by blast
                with today shift show "w \<in> set windows \<or> ?E currentDate w" by blast
              qed
            qed
          qed
        qed
      qed
    qed
  qed
qed

lemma generator_emits:
  assumes "generateServiceSlotsDirectly availabilities nowDt params = Some (Inr ws)"
    and "w \<in> set ws"
  shows "\<exists>fromDt toDt k av t. fromISO 0 (rangeFrom params) = Some fromDt
     \<and> fromISO 0 (rangeTo params) = Some toDt \<and> 0 \<le> k \<and> av \<in> set availabilities
     \<and> w = directWindowAt params t
     \<and> directSlotOn params fromDt toDt (plusMinutes nowDt (minLeadMinutes' params))
          (plusDays (startOfDay (timezone' params) fromDt) k) av t"
proof -
  from assms obtain fromDt toDt where f: "fromISO 0 (rangeFrom params) = Some fromDt"
    and t: "fromISO 0 (rangeTo params) = Some toDt"
    and l: "serviceDayLoop params availabilities fromDt toDt
              (plusMinutes nowDt (minLeadMinutes' params))
              (startOfDay (timezone' params) toDt) (startOfDay (timezone' params) fromDt) []
            = Some (Inr ws)"
    by (auto simp: generateServiceSlotsDirectly_def split: if_splits option.splits)
  from serviceDayLoop_emits[OF l] assms(2) f t show ?thesis by auto
qed

lemma virtualSlotLoop_emits:
  "\<forall>s\<in>set (virtualSlotLoop params fromDt toDt dayEnd slotStart generatedSlots).
     s \<in> set generatedSlots \<or>
     (\<exists>t. s = \<lparr>start_time = toISO t, end_time = toISO (plusMinutes t 15),
                id' = ''virtual-'' @ toISO t,
                professional_id = professionalId params, is_available = True,
                service_id = orNull (serviceId params)\<rparr>
        \<and> fromDt \<le> t \<and> t \<le> toDt)"
proof (induction params fromDt toDt dayEnd slotStart generatedSlots rule: virtualSlotLoop.induct)
  case (1 params fromDt toDt dayEnd slotStart generatedSlots)
  show ?case
  proof (cases "slotStart < dayEnd")
    case False
    then show ?thesis by (subst virtualSlotLoop.simps) (simp only: if_False, simp)
  next
    case True
    define acc where "acc =
      (if fromDt \<le> slotStart \<and> slotStart \<le> toDt
       then generatedSlots @
         [\<lparr>start_time = toISO slotStart, end_time = toISO (plusMinutes slotStart 15),
           id' = ''virtual-'' @ toISO slotStart,
           professional_id = professionalId params, is_available = True,
           service_id = orNull (serviceId params)\<rparr>]
       else generatedSlots)"
    have e: "virtualSlotLoop params fromDt toDt dayEnd slotStart generatedSlots =
             virtualSlotLoop params fromDt toDt dayEnd (plusMinutes slotStart 15) acc"
      unfolding acc_def
      by (subst virtualSlotLoop.simps) (simp only: True if_True Let_def)
    have ih: "\<forall>s\<in>set (virtualSlotLoop params fromDt toDt dayEnd (plusMinutes slotStart 15) acc).
     s \<in> set acc \<or>
     (\<exists>t. s = \<lparr>start_time = toISO t, end_time = toISO (plusMinutes t 15),
                id' = ''virtual-'' @ toISO t,
                professional_id = professionalId params, is_available = True,
                service_id = orNull (serviceId params)\<rparr>
        \<and> fromDt \<le> t \<and> t \<le> toDt)"
      using "1.IH"[OF True refl] unfolding acc_def by simp
    have a: "s \<in> set acc \<Longrightarrow> s \<in> set generatedSlots \<or>
     (\<exists>t. s = \<lparr>start_time = toISO t, end_time = toISO (plusMinutes t 15),
                id' = ''virtual-'' @ toISO t,
                professional_id = professionalId params, is_available = True,
                service_id = orNull (serviceId params)\<rparr>
        \<and> fromDt \<le> t \<and> t \<le> toDt)" for s
      unfolding acc_def by (auto split: if_splits)
    show ?thesis unfolding e using ih a by blast
  qed
qed

lemma slotsOfDay_emits:
  "\<forall>s\<in>set (slotsOfDay params fromDt toDt dayEnd dayStart generatedSlots).
     s \<in> set generatedSlots \<or>
     (\<exists>t. s = \<lparr>start_time = toISO t, end_time = toISO (plusMinutes t 15),
                id' = ''virtual-'' @ toISO t,
                professional_id = professionalId params, is_available = True,
                service_id = orNull (serviceId params)\<rparr>
        \<and> fromDt \<le> t \<and> t \<le> toDt)"
  unfolding slotsOfDay_def using virtualSlotLoop_emits
  by (auto split: option.splits)

lemma virtualDayLoop_emits:
  "virtualDayLoop params availabilities fromDt toDt endDate currentDate generatedSlots = Inr slots
   \<Longrightarrow> \<forall>s\<in>set slots. s \<in> set generatedSlots \<or>
     (\<exists>t. s = \<lparr>start_time = toISO t, end_time = toISO (plusMinutes t 15),
                id' = ''virtual-'' @ toISO t,
                professional_id = professionalId params, is_available = True,
                service_id = orNull (serviceId params)\<rparr>
        \<and> fromDt \<le> t \<and> t \<le> toDt)"
proof (induction params availabilities fromDt toDt endDate currentDate generatedSlots
    rule: virtualDayLoop.induct)
  case (1 params availabilities fromDt toDt endDate currentDate generatedSlots)
  note loop = virtualDayLoop.simps[of params availabilities fromDt toDt endDate currentDate
      generatedSlots]
  show ?case
  proof (cases "currentDate \<le> endDate")
    case False
    with "1.prems" show ?thesis by (simp add: loop)
  next
    case True
    show ?thesis
    proof (cases "find (\<lambda>av. day_of_week av = dayOfWeek SAO_PAULO currentDate) availabilities")
      case None
      with True "1.prems" have "virtualDayLoop params availabilities fromDt toDt endDate
          (plusDays currentDate 1) generatedSlots = Inr slots" by (simp add: loop)
      from "1.IH"(1)[OF True None this] show ?thesis .
    next
      case (Some av)
      show ?thesis
      proof (cases "setClock SAO_PAULO (Some currentDate) (start_time av)")
        case (Inl e)
        with True Some "1.prems" show ?thesis by (simp add: loop)
      next
        case ds: (Inr dayStart)
        show ?thesis
        proof (cases "setClock SAO_PAULO (Some currentDate) (end_time av)")
          case (Inl e)
          with True Some ds "1.prems" show ?thesis by (simp add: loop)
        next
          case de: (Inr dayEnd)
          with True Some ds "1.prems" have "virtualDayLoop params availabilities fromDt toDt
              endDate (plusDays currentDate 1)
              (slotsOfDay params fromDt toDt dayEnd dayStart generatedSlots) = Inr slots"
            by (simp add: loop)
          from "1.IH"(2)[OF True Some ds de this]
            slotsOfDay_emits[of params fromDt toDt dayEnd dayStart generatedSlots]
          show ?thesis by blast
        qed
      qed
    qed
  qed
qed

lemma generateSlotsFromAvailabilities_emits:
  assumes "generateSlotsFromAvailabilities availabilities params = Inr slots" "s \<in> set slots"
  shows "\<exists>fromDt toDt t. fromISO 0 (from' params) = Some fromDt
     \<and> fromISO 0 (to' params) = Some toDt
     \<and> s = \<lparr>start_time = toISO t, end_time = toISO (plusMinutes t 15),
            id' = ''virtual-'' @ toISO t,
            professional_id = professionalId params, is_available = True,
            service_id = orNull (serviceId params)\<rparr>
     \<and> fromDt \<le> t \<and> t \<le> toDt"
proof -
  from assms obtain fromDt toDt where f: "fromISO 0 (from' params) = Some fromDt"
    and t: "fromISO 0 (to' params) = Some toDt"
    and l: "virtualDayLoop params availabilities fromDt toDt (startOfDay SAO_PAULO toDt)
              (startOfDay SAO_PAULO fromDt) [] = Inr slots"
    by (auto simp: generateSlotsFromAvailabilities_def split: if_splits option.splits)
  from virtualDayLoop_emits[OF l] assms(2) f t show ?thesis by auto
qed




section \<open>The instants of the emitted windows\<close>



lemma generator_window_instants:
  assumes "generateServiceSlotsDirectly availabilities nowDt params = Some (Inr ws)"
    and "w \<in> set ws"
  shows "\<exists>s. fromISO 0 (start_time w) = Some s
     \<and> fromISO 0 (end_time w) = Some (plusMinutes s (duration params))
     \<and> slot_ids w = [''virtual-'' @ start_time w]
     \<and> start_time w = toISO s
     \<and> start_time w \<notin> occupiedStartTimes params"
proof -
  from generator_emits[OF assms] obtain fromDt toDt k av t where
    w: "w = directWindowAt params t"
    and d: "directSlotOn params fromDt toDt (plusMinutes nowDt (minLeadMinutes' params))
          (plusDays (startOfDay (timezone' params) fromDt) k) av t"
    by blast
  from d have "toISO t \<notin> occupiedStartTimes params" unfolding directSlotOn_def by blast
  then show ?thesis unfolding w directWindowAt_def by (auto simp: fromISO_toISO)
qed

section \<open>The scenarios, evaluated\<close>

declare serviceSlotLoop.simps [code]
declare serviceDayLoop.simps [code]

lemma scenario20_result:
  "buildServiceWindowsFromBaseSlots referenceEngine scenario20 = Inr [window20]"
  unfolding window20_def by code_simp

lemma directScenario_result:
  "generateServiceSlotsDirectly tuesdayMorning directNow directScenario = Some (Inr [directWindow])"
  unfolding directWindow_def by code_simp


lemma directWindow_instants:
  "fromISO 0 (start_time directWindow) = Some 1769515200000"
  "fromISO 0 (end_time directWindow) = Some 1769518800000"
  unfolding directWindow_def by code_simp+

lemma occupiedRow_instants:
  "fromISO 0 (start_time occupiedRow) = Some 1769517000000"
  "fromISO 0 (end_time occupiedRow) = Some 1769518800000"
  unfolding occupiedRow_def by code_simp+

lemma occupiedRow_canonical: "start_time occupiedRow = toISO 1769517000000"
  unfolding occupiedRow_def by code_simp

lemma leadDirect_result:
  "generateServiceSlotsDirectly tuesdayOffGrid leadNow leadDirect = Some (Inr [leadWindow])"
  unfolding leadWindow_def by code_simp

lemma leadBuild_result: "buildServiceWindowsFromBaseSlots referenceEngine leadBuild = Inr []"
  by code_simp

lemma slotsRequest_result:
  "getAvailableSlots emptyStore tuesdayMorning slotsRequest = Inr [virtualSlot1, virtualSlot2]"
  unfolding virtualSlot1_def virtualSlot2_def by code_simp

lemma slotsRequest_rows: "availableSlotRows emptyStore slotsRequest = Some []"
  by code_simp

lemma persistedSlot_instant: "fromISO 0 (start_time persistedSlot) = Some 1769511600000"
  unfolding persistedSlot_def by code_simp

lemma generatedWindow_instant: "fromISO 0 (start_time generatedWindow) = Some 1769511600000"
  unfolding generatedWindow_def by code_simp

lemma race_toInsert:
  "slotsToInsert emptyStore ''p1'' ''s1'' [generatedWindow]
     = [slotToCreate ''p1'' ''s1'' generatedWindow]"
  by code_simp

lemma race_insert_fails:
  "fst (insertSlots (emptyStore\<lparr>slotRows := slotRows emptyStore @ [winningRow]\<rparr>)
         (slotsToInsert emptyStore ''p1'' ''s1'' [generatedWindow])) = Inl DuplicateKey"
  by code_simp

lemma race_windows:
  "fst (materialize [winningRow] emptyStore ''p1'' ''s1'' [generatedWindow]) = [generatedWindow]"
  by code_simp

lemma race_rows:
  "slotRows (snd (materialize [winningRow] emptyStore ''p1'' ''s1'' [generatedWindow]))
     = [winningRow]"
  by code_simp

lemma generatedWindow_virtual: "virtualSlots [generatedWindow] = [generatedWindow]"
  by code_simp

lemma generatedWindow_end: "fromISO 0 (end_time generatedWindow) = Some 1769515200000"
  unfolding generatedWindow_def by code_simp

lemma alone_windows:
  "fst (materialize [] emptyStore ''p1'' ''s1'' [generatedWindow])
     = [generatedWindow\<lparr>slot_ids := [''slot-0'']\<rparr>]"
  by code_simp

lemma alone_rows:
  "slotRows (snd (materialize [] emptyStore ''p1'' ''s1'' [generatedWindow]))
     = [\<lparr>row_id = ''slot-0'', row_professional_id = ''p1'', row_service_id = Some ''s1'',
         row_start = 1769511600000, row_end = 1769515200000, row_is_available = True\<rparr>]"
  by code_simp

lemma unsortedHeap_result:
  "fst (buildServiceWindowsOnHeap referenceEngine scenario20 0 unsortedHeap) = Inr [window20]"
  unfolding window20_def by code_simp

lemma unsortedHeap_arrays:
  "slotArrays (snd (buildServiceWindowsOnHeap referenceEngine scenario20 0 unsortedHeap))
     = [[0, 1], [1, 0]]"
  by code_simp

lemma unreadableStart_result:
  "buildServiceWindowsFromBaseSlots referenceEngine unreadableStart = Inr [untimedWindow]"
  unfolding untimedWindow_def by code_simp

lemma unreadableStart_text:
  "map (\<lambda>s. fromISO 0 (start_time s)) (baseSlots unreadableStart) = [None]"
  by code_simp




lemma beforeMidnight_read:
  "map (\<lambda>av. parseClock (start_time av)) beforeMidnight = [(Finite (- 1), Some (Finite 0))]"
  by code_simp


section \<open>Properties of the keys of instants\<close>

lemma toISO_inj: "toISO s = toISO t \<Longrightarrow> s = t"
  by (metis fromISO_toISO option.inject)

lemma padStart2_digits:
  assumes "k < 100"
  shows "\<exists>a b. padStart 2 k = [a, b] \<and> isDigit a \<and> isDigit b"
proof -
  have "length (padStart 2 k) = 2" using assms by (intro length_padStart) simp
  then obtain a b where e: "padStart 2 k = [a, b]"
    by (cases "padStart 2 k"; cases "tl (padStart 2 k)") auto
  with all_digits_padStart[of 2 k] show ?thesis by simp
qed

lemma padStart3_digits:
  assumes "k < 1000"
  shows "\<exists>a b c. padStart 3 k = [a, b, c] \<and> isDigit a \<and> isDigit b \<and> isDigit c"
proof -
  have "length (padStart 3 k) = 3" using assms by (intro length_padStart) simp
  then obtain a b c where e: "padStart 3 k = [a, b, c]"
    by (cases "padStart 3 k"; cases "tl (padStart 3 k)"; cases "tl (tl (padStart 3 k))") auto
  with all_digits_padStart[of 3 k] show ?thesis by simp
qed

lemma toISO_shape:
  "\<exists>pre m2 s1 s2 a b c.
     toISO t = pre @ [m2, CHR '':'', s1, s2, CHR ''.'', a, b, c, CHR ''Z'']
     \<and> isDigit m2 \<and> isDigit a \<and> isDigit b \<and> isDigit c"
proof -
  obtain y m d where c: "civilFromDays (t div MS_PER_DAY) = (y, m, d)"
    by (cases "civilFromDays (t div MS_PER_DAY)") auto
  define r where "r = t mod MS_PER_DAY"
  have r: "0 \<le> r" "r < 86400000" by (simp_all add: r_def MS_PER_DAY_def)
  define qh qm qs qms where "qh = r div 3600000" and "qm = r mod 3600000 div 60000"
    and "qs = r mod 60000 div 1000" and "qms = r mod 1000"
  have f: "0 \<le> qh \<and> qh < 24 \<and> 0 \<le> qm \<and> qm < 60 \<and> 0 \<le> qs \<and> qs < 60 \<and> 0 \<le> qms \<and> qms < 1000
       \<and> qh * 3600000 + qm * 60000 + qs * 1000 + qms = r"
    unfolding qh_def qm_def qs_def qms_def by (rule time_of_day_fields[OF r])
  have b: "nat qm < 100" "nat qs < 100" "nat qms < 1000" using f by linarith+
  from padStart2_digits[OF b(1)] obtain m1 m2 where
    pm: "padStart 2 (nat qm) = [m1, m2]" and dm: "isDigit m2" by blast
  from padStart2_digits[OF b(2)] obtain s1 s2 where
    ps: "padStart 2 (nat qs) = [s1, s2]" by blast
  from padStart3_digits[OF b(3)] obtain a b' c' where
    pf: "padStart 3 (nat qms) = [a, b', c']" and df: "isDigit a" "isDigit b'" "isDigit c'"
    by blast
  have "toISO t = (formatYear y @ CHR ''-'' # padStart 2 (nat m) @ CHR ''-'' #
      padStart 2 (nat d) @ CHR ''T'' # padStart 2 (nat qh) @ [CHR '':'', m1])
      @ [m2, CHR '':'', s1, s2, CHR ''.'', a, b', c', CHR ''Z'']"
    unfolding toISO_def Let_def c r_def[symmetric]
      MS_PER_HOUR_def MS_PER_MINUTE_def qh_def[symmetric] qm_def[symmetric]
      qs_def[symmetric] qms_def[symmetric] prod.case pm ps pf
    by simp
  with dm df show ?thesis by blast
qed

lemma replaceMillisZ_shape:
  assumes "isDigit a" "isDigit b" "isDigit c"
  shows "replaceMillisZ r (xs @ [CHR ''.'', a, b, c, CHR ''Z'']) = xs @ r"
proof -
  define n where "n = length (xs @ [CHR ''.'', a, b, c, CHR ''Z''])"
  have n: "n = length xs + 5" by (simp add: n_def)
  have i: "n - 5 = length xs" "n - 4 = length xs + 1" "n - 3 = length xs + 2"
    "n - 2 = length xs + 3" "n - 1 = length xs + 4" "5 \<le> n"
    using n by simp_all
  have nth: "(xs @ [CHR ''.'', a, b, c, CHR ''Z'']) ! (length xs + k) = [CHR ''.'', a, b, c, CHR ''Z''] ! k"
    for k by (simp add: nth_append)
  have "(xs @ [CHR ''.'', a, b, c, CHR ''Z'']) ! (n - 5) = CHR ''.''"
    "(xs @ [CHR ''.'', a, b, c, CHR ''Z'']) ! (n - 4) = a"
    "(xs @ [CHR ''.'', a, b, c, CHR ''Z'']) ! (n - 3) = b"
    "(xs @ [CHR ''.'', a, b, c, CHR ''Z'']) ! (n - 2) = c"
    "(xs @ [CHR ''.'', a, b, c, CHR ''Z'']) ! (n - 1) = CHR ''Z''"
    unfolding i using nth[of 0] nth[of 1] nth[of 2] nth[of 3] nth[of 4] by simp_all
  moreover have "take (n - 5) (xs @ [CHR ''.'', a, b, c, CHR ''Z'']) = xs" unfolding i by simp
  ultimately show ?thesis
    unfolding replaceMillisZ_def Let_def n_def[symmetric] using assms i(6) by simp
qed

lemma withoutMs_not_canonical: "replaceMillisZ ''Z'' (toISO s) \<noteq> toISO t"
proof
  assume e: "replaceMillisZ ''Z'' (toISO s) = toISO t"
  from toISO_shape[of s] obtain pre m2 s1 s2 a b c where
    s: "toISO s = pre @ [m2, CHR '':'', s1, s2, CHR ''.'', a, b, c, CHR ''Z'']"
    and ds: "isDigit a" "isDigit b" "isDigit c" by blast
  from toISO_shape[of t] obtain pre' m2' s1' s2' a' b' c' where
    t: "toISO t = pre' @ [m2', CHR '':'', s1', s2', CHR ''.'', a', b', c', CHR ''Z'']"
    and dt: "isDigit a'" by blast
  have x: "pre @ [m2, CHR '':'', s1, s2, CHR ''.'', a, b, c, CHR ''Z'']
      = (pre @ [m2, CHR '':'', s1, s2]) @ [CHR ''.'', a, b, c, CHR ''Z'']" by simp
  have "replaceMillisZ ''Z'' (toISO s) = (pre @ [m2, CHR '':'', s1, s2]) @ ''Z''"
    unfolding s x by (rule replaceMillisZ_shape[OF ds])
  with e t have "rev (pre @ [m2, CHR '':'', s1, s2, CHR ''Z''])
     = rev (pre' @ [m2', CHR '':'', s1', s2', CHR ''.'', a', b', c', CHR ''Z''])" by simp
  then have "a' = CHR '':''" by simp
  with dt show False by (simp add: isDigit_def)
qed

lemma normalizeTime_Some: "normalizeTime text = Some n \<longleftrightarrow> (\<exists>t. fromISO 0 text = Some t \<and> n = toISO t)"
  unfolding normalizeTime_def by auto

lemma normalizeTime_canonical: "normalizeTime (toISO t) = Some (toISO t)"
  unfolding normalizeTime_def by (simp add: fromISO_toISO)

lemma registerRealSlot_canonical:
  "registerRealSlot m s (toISO t) =
     (if fromISO 0 (start_time s) = Some t then Some (id' s) else m (toISO t))"
proof (cases "fromISO 0 (start_time s)")
  case None
  then have "start_time s \<noteq> toISO t" using fromISO_toISO[of 0 t] by auto
  with None show ?thesis by (simp add: registerRealSlot_def normalizeTime_def)
next
  case (Some u)
  have w: "replaceMillisZ ''Z'' (toISO u) \<noteq> toISO t" by (rule withoutMs_not_canonical)
  show ?thesis
  proof (cases "u = t")
    case True
    with Some show ?thesis
      by (simp add: registerRealSlot_def normalizeTime_def Let_def)
  next
    case False
    then have "toISO u \<noteq> toISO t" using toISO_inj by blast
    moreover have "start_time s \<noteq> toISO t" using Some False fromISO_toISO[of 0 t] by auto
    ultimately show ?thesis using Some False w
      by (simp add: registerRealSlot_def normalizeTime_def Let_def)
  qed
qed

lemma foldl_registerRealSlot_canonical:
  assumes "\<forall>s\<in>set rows. fromISO 0 (start_time s) = Some t \<longrightarrow> id' s = i"
  shows "foldl registerRealSlot m rows (toISO t) =
     (if \<exists>s\<in>set rows. fromISO 0 (start_time s) = Some t then Some i else m (toISO t))"
  using assms
proof (induction rows arbitrary: m)
  case Nil
  then show ?case by simp
next
  case (Cons r rows)
  then have ih: "foldl registerRealSlot (registerRealSlot m r) rows (toISO t) =
     (if \<exists>s\<in>set rows. fromISO 0 (start_time s) = Some t then Some i
      else registerRealSlot m r (toISO t))" by simp
  from Cons.prems have r: "fromISO 0 (start_time r) = Some t \<longrightarrow> id' r = i" by simp
  show ?case
    unfolding foldl_Cons ih registerRealSlot_canonical using r by auto
qed

section \<open>Properties of the materialisation\<close>

lemma registerSlotId_apply:
  "registerSlotId m s k =
     (if start_time s = k \<or> normalizeTime (start_time s) = Some k then Some (id' s) else m k)"
  unfolding registerSlotId_def Let_def by (auto split: option.splits)

lemma dom_foldl_registerSlotId:
  "dom (foldl registerSlotId m xs) =
     dom m \<union> {k. \<exists>s\<in>set xs. start_time s = k \<or> normalizeTime (start_time s) = Some k}"
proof (induction xs arbitrary: m)
  case Nil
  then show ?case by simp
next
  case (Cons x xs)
  have "dom (registerSlotId m x) =
      dom m \<union> {k. start_time x = k \<or> normalizeTime (start_time x) = Some k}"
    by (auto simp: registerSlotId_apply dom_def)
  then show ?case unfolding foldl_Cons Cons.IH by auto
qed

lemma insertSlots_failed:
  assumes "fst (insertSlots store new) = Inl e"
  shows "insertSlots store new = (Inl e, store)"
  using assms unfolding insertSlots_def by (auto split: option.splits if_splits)

lemma insertSlots_result:
  "(\<exists>e. insertSlots store new = (Inl e, store))
   \<or> (\<exists>rows. toRows (newId store) (length (slotRows store)) new = Some rows
         \<and> insertSlots store new =
             (Inr (map (toSlot store) rows), store\<lparr>slotRows := slotRows store @ rows\<rparr>))"
proof (cases "toRows (newId store) (length (slotRows store)) new")
  case None
  then show ?thesis by (simp add: insertSlots_def)
next
  case (Some rows)
  show ?thesis
  proof (cases "uniqueStart store
             \<and> (\<not> distinct (map rowKey rows)
                  \<or> (\<exists>r\<in>set rows. rowKey r \<in> set (map rowKey (slotRows store))))")
    case True
    with Some have "insertSlots store new = (Inl DuplicateKey, store)"
      unfolding insertSlots_def by (simp only: option.case if_True simp_thms)
    then show ?thesis by blast
  next
    case False
    with Some have "insertSlots store new =
        (Inr (map (toSlot store) rows), store\<lparr>slotRows := slotRows store @ rows\<rparr>)"
      unfolding insertSlots_def by (simp only: option.case if_False simp_thms)
    with Some show ?thesis by blast
  qed
qed

lemma insertSlots_succeeds:
  assumes "toRows (newId store) (length (slotRows store)) new = Some rows"
    and "distinct (map rowKey rows)"
    and "\<forall>r\<in>set rows. rowKey r \<notin> set (map rowKey (slotRows store))"
  shows "insertSlots store new =
     (Inr (map (toSlot store) rows), store\<lparr>slotRows := slotRows store @ rows\<rparr>)"
  using assms unfolding insertSlots_def by auto

lemma toRows_Some:
  "toRows gen n new = Some rows \<Longrightarrow>
     list_all2 (\<lambda>s r. fromISO 0 (start_time s) = Some (row_start r)
                    \<and> row_professional_id r = professional_id s) new rows"
proof (induction new arbitrary: n rows)
  case Nil
  then show ?case by simp
next
  case (Cons s ss)
  from Cons.prems obtain r rs where r: "toRow (gen n) s = Some r"
    and rs: "toRows gen (Suc n) ss = Some rs" and rows: "rows = r # rs"
    by (auto split: option.splits)
  from r have "fromISO 0 (start_time s) = Some (row_start r)
       \<and> row_professional_id r = professional_id s"
    unfolding toRow_def by (auto split: option.splits)
  with Cons.IH[OF rs] show ?case unfolding rows by simp
qed

lemma toRows_None:
  "toRows gen n new = None \<longleftrightarrow>
     (\<exists>s\<in>set new. fromISO 0 (start_time s) = None \<or> fromISO 0 (end_time s) = None)"
proof (induction new arbitrary: n)
  case Nil
  then show ?case by simp
next
  case (Cons s ss)
  have "toRow (gen n) s = None \<longleftrightarrow>
      fromISO 0 (start_time s) = None \<or> fromISO 0 (end_time s) = None"
    unfolding toRow_def by (auto split: option.splits)
  with Cons.IH[of "Suc n"] show ?case by (auto split: option.splits)
qed

lemma store_rows_same: "store\<lparr>slotRows := slotRows store @ []\<rparr> = store"
  by simp

lemma notExisting_keeps_virtual:
  assumes "notExisting (foldl registerSlotId Map.empty rows) (slotToCreate pid sid w)"
  shows "withMaterializedId (foldl registerSlotId Map.empty rows) w = w"
proof -
  let ?E = "foldl registerSlotId Map.empty rows"
  have st: "start_time (slotToCreate pid sid w) = start_time w" by (simp add: slotToCreate_def)
  have d: "dom ?E = {k. \<exists>s\<in>set rows. start_time s = k \<or> normalizeTime (start_time s) = Some k}"
    by (simp add: dom_foldl_registerSlotId)
  show ?thesis
  proof (cases "normalizeTime (start_time w)")
    case None
    with assms st have "?E (start_time w) = None"
      unfolding notExisting_def by (auto simp: domIff)
    with None show ?thesis unfolding withMaterializedId_def by simp
  next
    case (Some n)
    with assms st have n: "n \<notin> dom ?E" unfolding notExisting_def by simp
    have "start_time w \<notin> dom ?E"
    proof
      assume "start_time w \<in> dom ?E"
      then obtain s where s: "s \<in> set rows"
        and c: "start_time s = start_time w \<or> normalizeTime (start_time s) = Some (start_time w)"
        unfolding d by blast
      from c show False
      proof
        assume "start_time s = start_time w"
        with Some have "normalizeTime (start_time s) = Some n" by simp
        with s have "n \<in> dom ?E" unfolding d by blast
        with n show False by simp
      next
        assume e: "normalizeTime (start_time s) = Some (start_time w)"
        then obtain t where "start_time w = toISO t" unfolding normalizeTime_Some by blast
        with Some have "n = start_time w" by (simp add: normalizeTime_canonical)
        with e s have "n \<in> dom ?E" unfolding d by blast
        with n show False by simp
      qed
    qed
    with n have "?E n = None" "?E (start_time w) = None" by (auto simp: domIff)
    with Some show ?thesis
      unfolding withMaterializedId_def by (simp add: orElse_def truthy_def)
  qed
qed

subsection \<open>A caller that is alone\<close>

lemma materialize_alone:
  "materialize [] store pid sid ws =
     (if virtualSlots ws = [] then (ws, store)
      else if slotsToInsert store pid sid ws = []
      then (map (withMaterializedId (existingSlotIds store pid ws)) ws, store)
      else
        (case insertSlots store (slotsToInsert store pid sid ws) of
           (Inl e, s) \<Rightarrow> (map (withMaterializedId (existingSlotIds store pid ws)) ws, s)
         | (Inr ins, s) \<Rightarrow>
             (map (withMaterializedId
                    (foldl registerSlotId (existingSlotIds store pid ws) ins)) ws, s)))"
  unfolding materialize_def Let_def
  by (auto split: prod.splits sum.splits)

lemma notExisting_empty: "notExisting Map.empty c"
  unfolding notExisting_def by (simp split: option.splits)

lemma start_time_slotToCreate: "start_time (slotToCreate pid sid w) = start_time w"
  and end_time_slotToCreate: "end_time (slotToCreate pid sid w) = end_time w"
  and professional_id_slotToCreate: "professional_id (slotToCreate pid sid w) = pid"
  by (simp_all add: slotToCreate_def)

lemma start_time_toSlot: "start_time (toSlot store r) = render store (row_start r)"
  by (simp add: toSlot_def)

text \<open>When the rows to insert can all be read, so can all the virtual windows.\<close>

lemma insertable_texts_parse:
  assumes "toRows gen n (slotsToInsert store pid sid ws) = Some rows"
  shows "list_all (\<lambda>x. fromISO 0 x \<noteq> None) (map start_time (virtualSlots ws))"
proof (rule ccontr)
  assume n: "\<not> list_all (\<lambda>x. fromISO 0 x \<noteq> None) (map start_time (virtualSlots ws))"
  then have "selectSlotsByStart store pid (map start_time (virtualSlots ws)) = None"
    unfolding selectSlotsByStart_def by simp
  then have "existingSlotIds store pid ws = Map.empty"
    unfolding existingSlotIds_def by simp
  then have t: "slotsToInsert store pid sid ws = map (slotToCreate pid sid) (virtualSlots ws)"
    unfolding slotsToInsert_def by (simp add: notExisting_empty)
  from n obtain w where w: "w \<in> set (virtualSlots ws)" "fromISO 0 (start_time w) = None"
    by (auto simp: list_all_iff)
  then have "slotToCreate pid sid w \<in> set (slotsToInsert store pid sid ws)"
    "fromISO 0 (start_time (slotToCreate pid sid w)) = None"
    unfolding t by (simp_all add: start_time_slotToCreate)
  then have "toRows gen n (slotsToInsert store pid sid ws) = None"
    unfolding toRows_None by blast
  with assms show False by simp
qed

lemma list_all2_left:
  "list_all2 Q xs ys \<Longrightarrow> x \<in> set xs \<Longrightarrow> \<exists>y\<in>set ys. Q x y"
  by (induction rule: list_all2_induct) auto

lemma list_all2_right:
  "list_all2 Q xs ys \<Longrightarrow> y \<in> set ys \<Longrightarrow> \<exists>x\<in>set xs. Q x y"
  by (induction rule: list_all2_induct) auto

lemma slotsToInsert_member:
  assumes "c \<in> set (slotsToInsert store pid sid ws)"
  shows "\<exists>w\<in>set (virtualSlots ws). c = slotToCreate pid sid w
           \<and> notExisting (existingSlotIds store pid ws) c"
  using assms unfolding slotsToInsert_def by auto

lemma normalize_render:
  assumes "\<forall>t. fromISO 0 (render store t) = Some t"
  shows "normalizeTime (start_time (toSlot store r)) = Some (toISO (row_start r))"
  using assms by (simp add: normalizeTime_def start_time_toSlot)

text \<open>The rows that the query for existing rows selects.\<close>

lemma selectSlotsByStart_Some:
  assumes "list_all (\<lambda>x. fromISO 0 x \<noteq> None) texts"
  shows "selectSlotsByStart store pid texts =
     Some (map (toSlot store)
       (filter (\<lambda>r. row_professional_id r = pid
                    \<and> Some (row_start r) \<in> set (map (fromISO 0) texts)) (slotRows store)))"
  using assms unfolding selectSlotsByStart_def by simp

lemma inserted_rows_selected:
  assumes "toRows gen n (slotsToInsert store pid sid ws) = Some rows" "r \<in> set rows"
  shows "row_professional_id r = pid
     \<and> Some (row_start r) \<in> set (map (fromISO 0) (map start_time (virtualSlots ws)))"
proof -
  from list_all2_right[OF toRows_Some[OF assms(1)] assms(2)] obtain c where
    c: "c \<in> set (slotsToInsert store pid sid ws)"
    and q: "fromISO 0 (start_time c) = Some (row_start r)"
      "row_professional_id r = professional_id c" by blast
  from slotsToInsert_member[OF c] obtain w where
    w: "w \<in> set (virtualSlots ws)" "c = slotToCreate pid sid w" by blast
  with q have "row_professional_id r = pid" "fromISO 0 (start_time w) = Some (row_start r)"
    by (simp_all add: start_time_slotToCreate professional_id_slotToCreate)
  with w(1) show ?thesis by force
qed

text \<open>After a successful insert, the query for existing rows finds the old and the new rows.\<close>

lemma existingSlotIds_after_insert:
  assumes rows: "toRows (newId store) (length (slotRows store))
                   (slotsToInsert store pid sid ws) = Some rows"
  shows "existingSlotIds (store\<lparr>slotRows := slotRows store @ rows\<rparr>) pid ws =
     foldl registerSlotId (existingSlotIds store pid ws) (map (toSlot store) rows)"
proof -
  let ?s1 = "store\<lparr>slotRows := slotRows store @ rows\<rparr>"
  let ?texts = "map start_time (virtualSlots ws)"
  let ?P = "\<lambda>r. row_professional_id r = pid \<and> Some (row_start r) \<in> set (map (fromISO 0) ?texts)"
  note p = insertable_texts_parse[OF rows]
  have ts: "toSlot ?s1 = toSlot store" by (rule ext) (simp add: toSlot_def)
  have "filter ?P rows = rows"
    using inserted_rows_selected[OF rows] by (simp add: filter_id_conv)
  then have "selectSlotsByStart ?s1 pid ?texts =
      Some (map (toSlot store) (filter ?P (slotRows store)) @ map (toSlot store) rows)"
    unfolding selectSlotsByStart_Some[OF p] ts by simp
  moreover have "selectSlotsByStart store pid ?texts =
      Some (map (toSlot store) (filter ?P (slotRows store)))"
    by (rule selectSlotsByStart_Some[OF p])
  ultimately show ?thesis unfolding existingSlotIds_def by simp
qed

lemma slotsToInsert_after_insert:
  assumes r: "\<forall>t. fromISO 0 (render store t) = Some t"
    and rows: "toRows (newId store) (length (slotRows store))
                   (slotsToInsert store pid sid ws) = Some rows"
  shows "slotsToInsert (store\<lparr>slotRows := slotRows store @ rows\<rparr>) pid sid ws = []"
proof -
  let ?s1 = "store\<lparr>slotRows := slotRows store @ rows\<rparr>"
  let ?A = "foldl registerSlotId (existingSlotIds store pid ws) (map (toSlot store) rows)"
  note p = insertable_texts_parse[OF rows]
  have "\<not> notExisting ?A (slotToCreate pid sid w)" if w: "w \<in> set (virtualSlots ws)" for w
  proof -
    from p w obtain t where t: "fromISO 0 (start_time w) = Some t"
      by (auto simp: list_all_iff)
    then have n: "normalizeTime (start_time (slotToCreate pid sid w)) = Some (toISO t)"
      by (simp add: normalizeTime_def start_time_slotToCreate)
    have "toISO t \<in> dom ?A"
    proof (cases "slotToCreate pid sid w \<in> set (slotsToInsert store pid sid ws)")
      case True
      from list_all2_left[OF toRows_Some[OF rows] True] obtain row where
        row: "row \<in> set rows" "fromISO 0 (start_time (slotToCreate pid sid w)) = Some (row_start row)"
        by blast
      with t have "row_start row = t" by (simp add: start_time_slotToCreate)
      with normalize_render[OF r, of row] have
        "normalizeTime (start_time (toSlot store row)) = Some (toISO t)" by simp
      with row(1) show ?thesis unfolding dom_foldl_registerSlotId by force
    next
      case False
      with w have "\<not> notExisting (existingSlotIds store pid ws) (slotToCreate pid sid w)"
        unfolding slotsToInsert_def by simp
      with n have "toISO t \<in> dom (existingSlotIds store pid ws)"
        unfolding notExisting_def by simp
      then show ?thesis unfolding dom_foldl_registerSlotId by simp
    qed
    with n show ?thesis unfolding notExisting_def by simp
  qed
  then show ?thesis
    unfolding slotsToInsert_def existingSlotIds_after_insert[OF rows]
    by (simp add: filter_empty_conv)
qed

text \<open>Running the step again on the store it left gives the same windows and store.\<close>

lemma materialize_again:
  assumes r: "\<forall>t. fromISO 0 (render store t) = Some t"
  shows "materialize [] (snd (materialize [] store pid sid ws)) pid sid ws
         = materialize [] store pid sid ws"
proof (cases "virtualSlots ws = []")
  case True
  then show ?thesis by (simp add: materialize_alone)
next
  case v: False
  show ?thesis
  proof (cases "slotsToInsert store pid sid ws = []")
    case True
    with v show ?thesis by (simp add: materialize_alone)
  next
    case t: False
    from insertSlots_result[of store "slotsToInsert store pid sid ws"] show ?thesis
    proof
      assume "\<exists>e. insertSlots store (slotsToInsert store pid sid ws) = (Inl e, store)"
      then obtain e where
        e: "insertSlots store (slotsToInsert store pid sid ws) = (Inl e, store)" by blast
      have m: "materialize [] store pid sid ws =
          (map (withMaterializedId (existingSlotIds store pid ws)) ws, store)"
        using v t e by (simp add: materialize_alone)
      show ?thesis by (simp add: m)
    next
      assume "\<exists>rows. toRows (newId store) (length (slotRows store))
                 (slotsToInsert store pid sid ws) = Some rows
         \<and> insertSlots store (slotsToInsert store pid sid ws) =
             (Inr (map (toSlot store) rows), store\<lparr>slotRows := slotRows store @ rows\<rparr>)"
      then obtain rows where
        rows: "toRows (newId store) (length (slotRows store))
                 (slotsToInsert store pid sid ws) = Some rows"
        and i: "insertSlots store (slotsToInsert store pid sid ws) =
             (Inr (map (toSlot store) rows), store\<lparr>slotRows := slotRows store @ rows\<rparr>)"
        by blast
      let ?s1 = "store\<lparr>slotRows := slotRows store @ rows\<rparr>"
      have m: "materialize [] store pid sid ws =
          (map (withMaterializedId
             (foldl registerSlotId (existingSlotIds store pid ws) (map (toSlot store) rows))) ws,
           ?s1)"
        using v t i by (simp add: materialize_alone)
      have "materialize [] ?s1 pid sid ws =
          (map (withMaterializedId (existingSlotIds ?s1 pid ws)) ws, ?s1)"
        using v slotsToInsert_after_insert[OF r rows] by (simp add: materialize_alone)
      then show ?thesis
        by (simp add: m existingSlotIds_after_insert[OF rows])
    qed
  qed
qed

lemma normalizeTime_slotToCreate:
  "fromISO 0 (start_time w) = Some t \<Longrightarrow>
     normalizeTime (start_time (slotToCreate pid sid w)) = Some (toISO t)"
  by (simp add: normalizeTime_def start_time_slotToCreate)

text \<open>A window is among the existing ones exactly when the table has a row at its instant.\<close>

lemma existing_has_row:
  assumes r: "\<forall>t. fromISO 0 (render store t) = Some t"
    and t: "fromISO 0 (start_time w) = Some t"
    and e: "\<not> notExisting (existingSlotIds store pid ws) (slotToCreate pid sid w)"
  shows "\<exists>row\<in>set (slotRows store). row_professional_id row = pid \<and> row_start row = t"
proof -
  let ?texts = "map start_time (virtualSlots ws)"
  from e normalizeTime_slotToCreate[OF t] have d: "toISO t \<in> dom (existingSlotIds store pid ws)"
    unfolding notExisting_def by simp
  then obtain sel where sel: "selectSlotsByStart store pid ?texts = Some sel"
    unfolding existingSlotIds_def by (cases "selectSlotsByStart store pid ?texts") auto
  with d obtain s where s: "s \<in> set sel"
    and k: "start_time s = toISO t \<or> normalizeTime (start_time s) = Some (toISO t)"
    unfolding existingSlotIds_def dom_foldl_registerSlotId by auto
  from sel s obtain row where row: "row \<in> set (slotRows store)"
    "row_professional_id row = pid" "s = toSlot store row"
    unfolding selectSlotsByStart_def by (auto split: if_splits)
  from k have "row_start row = t"
  proof
    assume "start_time s = toISO t"
    then have "fromISO 0 (render store (row_start row)) = fromISO 0 (toISO t)"
      unfolding row(3) start_time_toSlot by simp
    with r show ?thesis by (simp add: fromISO_toISO)
  next
    assume "normalizeTime (start_time s) = Some (toISO t)"
    with normalize_render[OF r, of row] show ?thesis
      unfolding row(3) by (simp add: toISO_inj)
  qed
  with row show ?thesis by blast
qed

lemma row_is_existing:
  assumes r: "\<forall>t. fromISO 0 (render store t) = Some t"
    and p: "list_all (\<lambda>x. fromISO 0 x \<noteq> None) (map start_time (virtualSlots ws))"
    and w: "w \<in> set (virtualSlots ws)"
    and t: "fromISO 0 (start_time w) = Some t"
    and row: "row \<in> set (slotRows store)" "row_professional_id row = pid" "row_start row = t"
  shows "\<not> notExisting (existingSlotIds store pid ws) (slotToCreate pid sid w)"
proof -
  let ?texts = "map start_time (virtualSlots ws)"
  from w t row(3) have "Some (row_start row) \<in> set (map (fromISO 0) ?texts)" by force
  with row have "toSlot store row \<in> set (the (selectSlotsByStart store pid ?texts))"
    unfolding selectSlotsByStart_Some[OF p] by simp
  moreover have "normalizeTime (start_time (toSlot store row)) = Some (toISO t)"
    using normalize_render[OF r, of row] row(3) by simp
  ultimately have "toISO t \<in> dom (existingSlotIds store pid ws)"
    unfolding existingSlotIds_def dom_foldl_registerSlotId selectSlotsByStart_Some[OF p]
    by auto
  with normalizeTime_slotToCreate[OF t] show ?thesis unfolding notExisting_def by simp
qed

lemma list_all2_map_eq:
  "list_all2 (\<lambda>x y. f x = g y) xs ys \<Longrightarrow> map f xs = map g ys"
  by (induction rule: list_all2_induct) auto

text \<open>A caller that is alone, with windows at distinct instants, inserts with success.\<close>

lemma insert_alone_succeeds:
  assumes r: "\<forall>t. fromISO 0 (render store t) = Some t"
    and p: "\<forall>w\<in>set (virtualSlots ws).
              fromISO 0 (start_time w) \<noteq> None \<and> fromISO 0 (end_time w) \<noteq> None"
    and d: "distinct (map (\<lambda>w. fromISO 0 (start_time w)) (virtualSlots ws))"
  shows "\<exists>rows. toRows (newId store) (length (slotRows store))
                  (slotsToInsert store pid sid ws) = Some rows
           \<and> insertSlots store (slotsToInsert store pid sid ws) =
               (Inr (map (toSlot store) rows), store\<lparr>slotRows := slotRows store @ rows\<rparr>)"
proof -
  let ?T = "slotsToInsert store pid sid ws"
  have "\<not> (\<exists>s\<in>set ?T. fromISO 0 (start_time s) = None \<or> fromISO 0 (end_time s) = None)"
  proof
    assume "\<exists>s\<in>set ?T. fromISO 0 (start_time s) = None \<or> fromISO 0 (end_time s) = None"
    then obtain s where s: "s \<in> set ?T"
      "fromISO 0 (start_time s) = None \<or> fromISO 0 (end_time s) = None" by blast
    from slotsToInsert_member[OF s(1)] obtain w where
      "w \<in> set (virtualSlots ws)" "s = slotToCreate pid sid w" by blast
    with s(2) p show False by (auto simp: start_time_slotToCreate end_time_slotToCreate)
  qed
  then obtain rows where rows: "toRows (newId store) (length (slotRows store)) ?T = Some rows"
    using toRows_None[of "newId store" "length (slotRows store)" ?T] by auto
  note l = toRows_Some[OF rows]
  have pl: "list_all (\<lambda>x. fromISO 0 x \<noteq> None) (map start_time (virtualSlots ws))"
    using p by (simp add: list_all_iff)
  have "list_all2 (\<lambda>s r. fromISO 0 (start_time s) = Some (row_start r)) ?T rows"
    using l by (rule list_all2_mono) simp
  then have "map (\<lambda>s. fromISO 0 (start_time s)) ?T = map (\<lambda>r. Some (row_start r)) rows"
    by (rule list_all2_map_eq)
  moreover have "distinct (map (\<lambda>s. fromISO 0 (start_time s)) ?T)"
  proof -
    have "map (\<lambda>s. fromISO 0 (start_time s)) (map (slotToCreate pid sid) (virtualSlots ws))
        = map (\<lambda>w. fromISO 0 (start_time w)) (virtualSlots ws)"
      by (simp add: start_time_slotToCreate comp_def)
    with d have "distinct (map (\<lambda>s. fromISO 0 (start_time s))
        (map (slotToCreate pid sid) (virtualSlots ws)))" by (simp only:)
    then show ?thesis unfolding slotsToInsert_def by (rule distinct_map_filter)
  qed
  ultimately have "distinct (map ((\<lambda>k. Some (snd k)) \<circ> rowKey) rows)"
    by (simp add: rowKey_def comp_def)
  then have dk: "distinct (map rowKey rows)"
    unfolding distinct_map by (blast intro: inj_on_imageI2)
  have "\<forall>row\<in>set rows. rowKey row \<notin> set (map rowKey (slotRows store))"
  proof
    fix row assume row: "row \<in> set rows"
    show "rowKey row \<notin> set (map rowKey (slotRows store))"
    proof
      assume "rowKey row \<in> set (map rowKey (slotRows store))"
      then obtain old where old: "old \<in> set (slotRows store)"
        "row_professional_id old = row_professional_id row" "row_start old = row_start row"
        by (auto simp: rowKey_def)
      from list_all2_right[OF l row] obtain c where c: "c \<in> set ?T"
        "fromISO 0 (start_time c) = Some (row_start row)"
        "row_professional_id row = professional_id c" by blast
      from slotsToInsert_member[OF c(1)] obtain w where w: "w \<in> set (virtualSlots ws)"
        "c = slotToCreate pid sid w" "notExisting (existingSlotIds store pid ws) c" by blast
      from c(2,3) w(2) have "fromISO 0 (start_time w) = Some (row_start row)"
        "row_professional_id row = pid"
        by (simp_all add: start_time_slotToCreate professional_id_slotToCreate)
      with row_is_existing[OF r pl w(1) this(1) old(1), of pid sid] old(2,3) w(2,3)
      show False by simp
    qed
  qed
  from insertSlots_succeeds[OF rows dk this] rows show ?thesis by blast
qed

text \<open>After the step, every window at a readable instant has its row.\<close>

lemma materialize_rows:
  assumes r: "\<forall>t. fromISO 0 (render store t) = Some t"
    and p: "\<forall>w\<in>set (virtualSlots ws).
              fromISO 0 (start_time w) \<noteq> None \<and> fromISO 0 (end_time w) \<noteq> None"
    and d: "distinct (map (\<lambda>w. fromISO 0 (start_time w)) (virtualSlots ws))"
  shows "slotsToInsert (snd (materialize [] store pid sid ws)) pid sid ws = []
     \<and> (\<forall>w\<in>set (virtualSlots ws).
          \<exists>row\<in>set (slotRows (snd (materialize [] store pid sid ws))).
            row_professional_id row = pid \<and> fromISO 0 (start_time w) = Some (row_start row))"
proof (cases "slotsToInsert store pid sid ws = []")
  case True
  then have s: "snd (materialize [] store pid sid ws) = store"
    by (simp add: materialize_alone)
  have "\<exists>row\<in>set (slotRows store).
      row_professional_id row = pid \<and> fromISO 0 (start_time w) = Some (row_start row)"
    if w: "w \<in> set (virtualSlots ws)" for w
  proof -
    from p w obtain t where t: "fromISO 0 (start_time w) = Some t" by auto
    from True w have "\<not> notExisting (existingSlotIds store pid ws) (slotToCreate pid sid w)"
      unfolding slotsToInsert_def by (auto simp: filter_empty_conv)
    from existing_has_row[OF r t this] t show ?thesis by auto
  qed
  with True show ?thesis unfolding s by blast
next
  case False
  then have v: "virtualSlots ws \<noteq> []" unfolding slotsToInsert_def by auto
  from insert_alone_succeeds[OF r p d, of pid sid] obtain rows where
    rows: "toRows (newId store) (length (slotRows store))
             (slotsToInsert store pid sid ws) = Some rows"
    and i: "insertSlots store (slotsToInsert store pid sid ws) =
             (Inr (map (toSlot store) rows), store\<lparr>slotRows := slotRows store @ rows\<rparr>)"
    by blast
  from False v i have s: "snd (materialize [] store pid sid ws)
      = store\<lparr>slotRows := slotRows store @ rows\<rparr>"
    by (simp add: materialize_alone)
  have "\<exists>row\<in>set (slotRows store) \<union> set rows.
      row_professional_id row = pid \<and> fromISO 0 (start_time w) = Some (row_start row)"
    if w: "w \<in> set (virtualSlots ws)" for w
  proof (cases "slotToCreate pid sid w \<in> set (slotsToInsert store pid sid ws)")
    case True
    from list_all2_left[OF toRows_Some[OF rows] True] show ?thesis
      by (auto simp: start_time_slotToCreate professional_id_slotToCreate)
  next
    case n: False
    from p w obtain t where t: "fromISO 0 (start_time w) = Some t" by auto
    from n w have "\<not> notExisting (existingSlotIds store pid ws) (slotToCreate pid sid w)"
      unfolding slotsToInsert_def by simp
    from existing_has_row[OF r t this] t show ?thesis by auto
  qed
  with slotsToInsert_after_insert[OF r rows] show ?thesis unfolding s by simp
qed

section \<open>Properties of the builder on a heap\<close>

lemma buildServiceWindowsOnHeap_result:
  assumes "conforming engine" "a < length (slotArrays h)"
  shows "fst (buildServiceWindowsOnHeap engine p a h)
           = buildServiceWindowsFromBaseSlots engine (p\<lparr>baseSlots := slotsOf h a\<rparr>)"
proof -
  let ?refs = "slotArrays h ! a"
  let ?n = "length (slotArrays h)"
  let ?h1 = "h\<lparr>slotArrays := slotArrays h @ [?refs]\<rparr>"
  let ?ts = "map (\<lambda>s. dateParse engine (start_time s)) (slotsOf h a)"
  let ?ord = "sortOrder engine ?ts"
  have s: "spread a h = (?n, ?h1)" by (simp add: spread_def)
  have c: "slotsOf ?h1 ?n = slotsOf h a" by (simp add: slotsOf_def)
  have r: "slotArrays ?h1 ! ?n = ?refs" by simp
  have "length ?ts = length ?refs" by (simp add: slotsOf_def)
  with assms(1) have i: "\<forall>k\<in>set ?ord. k < length ?refs"
    unfolding conforming_def by (metis lessThan_iff)
  have "slotsOf (sortInPlace engine ?n ?h1) ?n
      = map ((!) (slotObjects h)) (map ((!) ?refs) ?ord)"
    unfolding sortInPlace_def c r by (simp add: slotsOf_def)
  also have "\<dots> = map ((!) (slotsOf h a)) ?ord"
    using i unfolding slotsOf_def by simp
  finally have "slotsOf (sortInPlace engine ?n ?h1) ?n = sortedCopy engine (slotsOf h a)"
    unfolding sortedCopy_def .
  then show ?thesis
    unfolding buildServiceWindowsOnHeap_def s prod.case Let_def fst_conv
      buildServiceWindowsFromBaseSlots_def
    by (simp add: buildFromSorted_baseSlots)
qed

lemma buildServiceWindowsOnHeap_heap:
  assumes "a < length (slotArrays h)"
  shows "slotObjects (snd (buildServiceWindowsOnHeap engine p a h)) = slotObjects h"
    and "take (length (slotArrays h)) (slotArrays (snd (buildServiceWindowsOnHeap engine p a h)))
           = slotArrays h"
  unfolding buildServiceWindowsOnHeap_def spread_def sortInPlace_def Let_def
  by simp_all

section \<open>Claim C1: unavailable slots and rows\<close>

text \<open>
  Claim C1, as amended. Every window of the builder lists the ids of base slots of the
  input that all have \<open>is_available = true\<close> (whatever the engine, whose sort returns
  the elements of the array). The start text of every window of the direct
  generator is not in the occupied set, so it differs from the \<open>start_time\<close> of every
  row the set was built from; when such a row writes its start in the form of
  \<open>toISO\<close>, the window does not start at the instant of that row. Whether the span of
  a window meets the span of an unavailable row is not checked.
\<close>

theorem unavailable_start_not_emitted:
  "(conforming engine \<longrightarrow>
     (\<forall>ws w. buildServiceWindowsFromBaseSlots engine p = Inr ws \<longrightarrow> w \<in> set ws \<longrightarrow>
        (\<exists>grp. slot_ids w = map id' grp \<and> set grp \<subseteq> set (baseSlots p)
           \<and> (\<forall>s\<in>set grp. is_available s))))
   \<and> (\<forall>ws w. generateServiceSlotsDirectly availabilities nowDt params = Some (Inr ws) \<longrightarrow>
         w \<in> set ws \<longrightarrow>
         start_time w \<notin> occupiedStartTimes params
       \<and> (\<forall>rows r. occupiedStartTimes params = occupiedSet (Some rows) \<longrightarrow> r \<in> set rows \<longrightarrow>
             start_time w \<noteq> start_time r
           \<and> (\<forall>t. start_time r = toISO t \<longrightarrow> fromISO 0 (start_time w) \<noteq> Some t)))"
proof (intro conjI allI impI)
  fix ws w
  assume c: "conforming engine"
    and b: "buildServiceWindowsFromBaseSlots engine p = Inr ws" and w: "w \<in> set ws"
  from builder_emits[OF b w] obtain needed j where
    g: "windowOfGroup p (jsSlice (sortedCopy engine (baseSlots p)) j (j + needed))
          = Inr (Some w)"
    by blast
  define grp where "grp = jsSlice (sortedCopy engine (baseSlots p)) j (j + needed)"
  from windowOfGroup_Some[OF g] have av: "\<forall>s\<in>set grp. is_available s"
    and ids: "slot_ids w = map id' grp"
    unfolding grp_def by auto
  have "set grp \<subseteq> set (sortedCopy engine (baseSlots p))"
    unfolding grp_def by (rule set_jsSlice)
  then have "set grp \<subseteq> set (baseSlots p)" unfolding sortedCopy_set[OF c] .
  with ids av show "\<exists>grp. slot_ids w = map id' grp \<and> set grp \<subseteq> set (baseSlots p)
         \<and> (\<forall>s\<in>set grp. is_available s)" by blast
next
  fix ws w
  assume g: "generateServiceSlotsDirectly availabilities nowDt params = Some (Inr ws)"
    and w: "w \<in> set ws"
  from generator_window_instants[OF g w]
  show "start_time w \<notin> occupiedStartTimes params" by blast
next
  fix ws w rows r
  assume g: "generateServiceSlotsDirectly availabilities nowDt params = Some (Inr ws)"
    and w: "w \<in> set ws"
    and o: "occupiedStartTimes params = occupiedSet (Some rows)" and r: "r \<in> set rows"
  from generator_window_instants[OF g w] obtain s where
    s: "fromISO 0 (start_time w) = Some s" "start_time w = toISO s"
    and n: "start_time w \<notin> occupiedStartTimes params" by blast
  from o r have "start_time r \<in> occupiedStartTimes params" by (simp add: occupiedSet_def)
  with n show "start_time w \<noteq> start_time r" by auto
next
  fix ws w rows r t
  assume g: "generateServiceSlotsDirectly availabilities nowDt params = Some (Inr ws)"
    and w: "w \<in> set ws"
    and o: "occupiedStartTimes params = occupiedSet (Some rows)" and r: "r \<in> set rows"
    and c: "start_time r = toISO t"
  from generator_window_instants[OF g w] obtain s where
    s: "fromISO 0 (start_time w) = Some s" "start_time w = toISO s"
    and n: "start_time w \<notin> occupiedStartTimes params" by blast
  from o r have "start_time r \<in> occupiedStartTimes params" by (simp add: occupiedSet_def)
  with n c s(2) have "toISO s \<noteq> toISO t" by auto
  then have "s \<noteq> t" by auto
  with s(1) show "fromISO 0 (start_time w) \<noteq> Some t" by simp
qed

theorem unavailable_start_not_emitted_witness:
  "conforming referenceEngine
   \<and> buildServiceWindowsFromBaseSlots referenceEngine scenario20 = Inr [window20]
   \<and> window20 \<in> set [window20]
   \<and> (\<exists>grp. slot_ids window20 = map id' grp \<and> set grp \<subseteq> set (baseSlots scenario20)
         \<and> (\<forall>s\<in>set grp. is_available s))
   \<and> generateServiceSlotsDirectly tuesdayMorning directNow directScenario
        = Some (Inr [directWindow])
   \<and> directWindow \<in> set [directWindow]
   \<and> occupiedStartTimes directScenario = occupiedSet (Some [occupiedRow])
   \<and> occupiedRow \<in> set [occupiedRow] \<and> start_time occupiedRow = toISO 1769517000000
   \<and> start_time directWindow \<notin> occupiedStartTimes directScenario
   \<and> start_time directWindow \<noteq> start_time occupiedRow
   \<and> fromISO 0 (start_time directWindow) \<noteq> Some 1769517000000"
proof -
  have m: "window20 \<in> set [window20]" "directWindow \<in> set [directWindow]"
    "occupiedRow \<in> set [occupiedRow]" by simp_all
  have o: "occupiedStartTimes directScenario = occupiedSet (Some [occupiedRow])"
    by (simp add: directScenario_def)
  from unavailable_start_not_emitted[of referenceEngine scenario20 tuesdayMorning directNow
      directScenario]
    referenceEngine_conforming scenario20_result directScenario_result m o
    occupiedRow_canonical
  show ?thesis by blast
qed

text \<open>
  The claim C1 as stated fails for the direct generator: the window from 09:00 to 10:00
  local time (12:00 to 13:00 UTC) is emitted although the row booked from 09:30 to 10:00
  (12:30 to 13:00 UTC) is unavailable.
\<close>

theorem unavailable_range_counterexample:
  "generateServiceSlotsDirectly tuesdayMorning directNow directScenario
     = Some (Inr [directWindow])
   \<and> occupiedStartTimes directScenario = occupiedSet (Some [occupiedRow])
   \<and> \<not> is_available occupiedRow
   \<and> fromISO 0 (start_time directWindow) = Some 1769515200000
   \<and> fromISO 0 (end_time directWindow) = Some 1769518800000
   \<and> fromISO 0 (start_time occupiedRow) = Some 1769517000000
   \<and> fromISO 0 (end_time occupiedRow) = Some 1769518800000
   \<and> overlaps 1769515200000 1769518800000 1769517000000 1769518800000"
  using directScenario_result directWindow_instants occupiedRow_instants
  by (simp add: directScenario_def occupiedRow_def overlaps_def)

section \<open>Claim C2: the two lead-time checks\<close>

text \<open>
  Claim C2 fails on the code. At 10:05 local time with a step of 15 minutes the builder
  rounds the threshold up to 10:15 and rejects a window that starts at 10:10; the direct
  generator compares with 10:05 and keeps it (its comment announces the rounding, its
  code does not round, and it has no step to round to).
\<close>

theorem lead_time_checks_differ:
  "isFuture SAO_PAULO leadNow 1769519400000
   \<and> leadTimeRejects SAO_PAULO 15 (Some leadNow) 1769519400000
   \<and> generateServiceSlotsDirectly tuesdayOffGrid leadNow leadDirect = Some (Inr [leadWindow])
   \<and> fromISO 0 (start_time leadWindow) = Some 1769519400000
   \<and> fromISO SAO_PAULO (now leadBuild) = Some leadNow
   \<and> map (\<lambda>s. fromISO 0 (start_time s)) (baseSlots leadBuild) = [Some 1769519400000]
   \<and> buildServiceWindowsFromBaseSlots referenceEngine leadBuild = Inr []"
proof -
  have "isFuture SAO_PAULO leadNow 1769519400000" by code_simp
  moreover have "leadTimeRejects SAO_PAULO 15 (Some leadNow) 1769519400000" by code_simp
  moreover have "fromISO 0 (start_time leadWindow) = Some 1769519400000" by code_simp
  moreover have "fromISO SAO_PAULO (now leadBuild) = Some leadNow" by code_simp
  moreover have "map (\<lambda>s. fromISO 0 (start_time s)) (baseSlots leadBuild) = [Some 1769519400000]"
    by code_simp
  ultimately show ?thesis using leadDirect_result leadBuild_result by blast
qed

section \<open>Claim C3: the span of a window\<close>




section \<open>Claim C4: a failed insert\<close>

text \<open>
  Claim C4, as amended. When the batch insert of the materialisation fails, with a
  duplicate key or any other error, the failure is logged and not surfaced: the step
  still returns the windows. Nothing is read again: the windows carry the ids found by
  the query made before the insert, the store is as the other callers left it, and
  every virtual window that was to be inserted keeps its virtual id.
\<close>

theorem failed_insert_keeps_virtual_ids:
  assumes "slotsToInsert store pid sid ws \<noteq> []"
    and "fst (insertSlots (store\<lparr>slotRows := slotRows store @ concurrent\<rparr>)
               (slotsToInsert store pid sid ws)) = Inl e"
  shows "materialize concurrent store pid sid ws =
           (map (withMaterializedId (existingSlotIds store pid ws)) ws,
            store\<lparr>slotRows := slotRows store @ concurrent\<rparr>)
    \<and> (\<forall>w\<in>set ws. isVirtual w \<longrightarrow>
          slotToCreate pid sid w \<in> set (slotsToInsert store pid sid ws) \<longrightarrow>
          withMaterializedId (existingSlotIds store pid ws) w = w)"
proof
  from assms(1) have v: "virtualSlots ws \<noteq> []" unfolding slotsToInsert_def by auto
  from insertSlots_failed[OF assms(2)] assms(1) v
  show "materialize concurrent store pid sid ws =
           (map (withMaterializedId (existingSlotIds store pid ws)) ws,
            store\<lparr>slotRows := slotRows store @ concurrent\<rparr>)"
    unfolding materialize_def Let_def by simp
next
  show "\<forall>w\<in>set ws. isVirtual w \<longrightarrow>
          slotToCreate pid sid w \<in> set (slotsToInsert store pid sid ws) \<longrightarrow>
          withMaterializedId (existingSlotIds store pid ws) w = w"
  proof (intro ballI impI)
    fix w assume "slotToCreate pid sid w \<in> set (slotsToInsert store pid sid ws)"
    then have "notExisting (existingSlotIds store pid ws) (slotToCreate pid sid w)"
      unfolding slotsToInsert_def by simp
    then show "withMaterializedId (existingSlotIds store pid ws) w = w"
      unfolding existingSlotIds_def by (rule notExisting_keeps_virtual)
  qed
qed

theorem failed_insert_keeps_virtual_ids_witness:
  "slotsToInsert emptyStore ''p1'' ''s1'' [generatedWindow] \<noteq> []
   \<and> fst (insertSlots (emptyStore\<lparr>slotRows := slotRows emptyStore @ [winningRow]\<rparr>)
               (slotsToInsert emptyStore ''p1'' ''s1'' [generatedWindow])) = Inl DuplicateKey
   \<and> materialize [winningRow] emptyStore ''p1'' ''s1'' [generatedWindow] =
           (map (withMaterializedId (existingSlotIds emptyStore ''p1'' [generatedWindow]))
              [generatedWindow],
            emptyStore\<lparr>slotRows := slotRows emptyStore @ [winningRow]\<rparr>)
   \<and> generatedWindow \<in> set [generatedWindow] \<and> isVirtual generatedWindow
   \<and> slotToCreate ''p1'' ''s1'' generatedWindow
        \<in> set (slotsToInsert emptyStore ''p1'' ''s1'' [generatedWindow])
   \<and> withMaterializedId (existingSlotIds emptyStore ''p1'' [generatedWindow])
        generatedWindow = generatedWindow"
proof -
  have n: "slotsToInsert emptyStore ''p1'' ''s1'' [generatedWindow] \<noteq> []"
    unfolding race_toInsert by simp
  have m: "generatedWindow \<in> set [generatedWindow]" by simp
  have v: "isVirtual generatedWindow" by code_simp
  have i: "slotToCreate ''p1'' ''s1'' generatedWindow
        \<in> set (slotsToInsert emptyStore ''p1'' ''s1'' [generatedWindow])"
    unfolding race_toInsert by simp
  from failed_insert_keeps_virtual_ids[OF n race_insert_fails] n race_insert_fails m v i
  show ?thesis by blast
qed

text \<open>
  The claim C4 as stated fails: another caller wins the race for the instant of the
  window, the insert fails with a duplicate key, the winning row \<open>won\<close> is in the store,
  and the window still carries its virtual id.
\<close>

theorem duplicate_key_counterexample:
  "fst (insertSlots (emptyStore\<lparr>slotRows := slotRows emptyStore @ [winningRow]\<rparr>)
         (slotsToInsert emptyStore ''p1'' ''s1'' [generatedWindow])) = Inl DuplicateKey
   \<and> fst (materialize [winningRow] emptyStore ''p1'' ''s1'' [generatedWindow])
       = [generatedWindow]
   \<and> slotRows (snd (materialize [winningRow] emptyStore ''p1'' ''s1'' [generatedWindow]))
       = [winningRow]
   \<and> row_id winningRow = ''won'' \<and> row_professional_id winningRow = ''p1''
   \<and> fromISO 0 (start_time generatedWindow) = Some (row_start winningRow)
   \<and> slot_ids generatedWindow = [''virtual-2026-01-27T11:00:00.000Z'']
   \<and> slot_ids generatedWindow \<noteq> [row_id winningRow]"
  using race_insert_fails race_windows race_rows generatedWindow_instant
  by (simp add: winningRow_def generatedWindow_def)

section \<open>Claim C5: materialising twice\<close>

text \<open>
  Claim C5. The store returns the instants it holds (the text it renders for an instant
  reads back as that instant), and the caller is alone. Running the materialisation step
  a second time, on the store the first run left and with the same windows, returns the
  same windows, so the same \<open>slot_ids\<close> for every window, and leaves the store as it
  was: the second run inserts no row. When the virtual windows have readable times and
  start at distinct instants, as generated windows do, the second run has nothing to
  insert, and every virtual window has a persisted row of the professional at its start
  instant.
\<close>

theorem materialization_idempotent:
  assumes "\<forall>t. fromISO 0 (render store t) = Some t"
  shows "materialize [] (snd (materialize [] store pid sid ws)) pid sid ws
           = materialize [] store pid sid ws
    \<and> ((\<forall>w\<in>set (virtualSlots ws).
           fromISO 0 (start_time w) \<noteq> None \<and> fromISO 0 (end_time w) \<noteq> None)
       \<and> distinct (map (\<lambda>w. fromISO 0 (start_time w)) (virtualSlots ws)) \<longrightarrow>
         slotsToInsert (snd (materialize [] store pid sid ws)) pid sid ws = []
         \<and> (\<forall>w\<in>set (virtualSlots ws).
              \<exists>row\<in>set (slotRows (snd (materialize [] store pid sid ws))).
                row_professional_id row = pid
                \<and> fromISO 0 (start_time w) = Some (row_start row)))"
  using materialize_again[OF assms] materialize_rows[OF assms] by blast

theorem materialization_idempotent_witness:
  "(\<forall>t. fromISO 0 (render emptyStore t) = Some t)
   \<and> virtualSlots [generatedWindow] = [generatedWindow]
   \<and> fromISO 0 (start_time generatedWindow) \<noteq> None
   \<and> fromISO 0 (end_time generatedWindow) \<noteq> None
   \<and> distinct (map (\<lambda>w. fromISO 0 (start_time w)) (virtualSlots [generatedWindow]))
   \<and> fst (materialize [] emptyStore ''p1'' ''s1'' [generatedWindow])
        = [generatedWindow\<lparr>slot_ids := [''slot-0'']\<rparr>]
   \<and> materialize [] (snd (materialize [] emptyStore ''p1'' ''s1'' [generatedWindow]))
        ''p1'' ''s1'' [generatedWindow]
        = materialize [] emptyStore ''p1'' ''s1'' [generatedWindow]
   \<and> slotsToInsert (snd (materialize [] emptyStore ''p1'' ''s1'' [generatedWindow]))
        ''p1'' ''s1'' [generatedWindow] = []
   \<and> (\<exists>row. row \<in> set (slotRows (snd (materialize [] emptyStore ''p1'' ''s1''
                                          [generatedWindow])))
          \<and> row_id row = ''slot-0'' \<and> row_professional_id row = ''p1''
          \<and> fromISO 0 (start_time generatedWindow) = Some (row_start row))"
proof -
  have r: "\<forall>t. fromISO 0 (render emptyStore t) = Some t"
    by (simp add: emptyStore_def fromISO_toISO)
  have p: "\<forall>w\<in>set (virtualSlots [generatedWindow]).
      fromISO 0 (start_time w) \<noteq> None \<and> fromISO 0 (end_time w) \<noteq> None"
    unfolding generatedWindow_virtual
    by (simp add: generatedWindow_instant generatedWindow_end)
  have d: "distinct (map (\<lambda>w. fromISO 0 (start_time w)) (virtualSlots [generatedWindow]))"
    unfolding generatedWindow_virtual by simp
  have e: "\<exists>row. row \<in> set (slotRows (snd (materialize [] emptyStore ''p1'' ''s1''
                                          [generatedWindow])))
          \<and> row_id row = ''slot-0'' \<and> row_professional_id row = ''p1''
          \<and> fromISO 0 (start_time generatedWindow) = Some (row_start row)"
    unfolding alone_rows generatedWindow_instant by simp
  from materialization_idempotent[OF r, of "''p1''" "''s1''" "[generatedWindow]"] p d
  have "materialize [] (snd (materialize [] emptyStore ''p1'' ''s1'' [generatedWindow]))
        ''p1'' ''s1'' [generatedWindow]
        = materialize [] emptyStore ''p1'' ''s1'' [generatedWindow]"
    and "slotsToInsert (snd (materialize [] emptyStore ''p1'' ''s1'' [generatedWindow]))
        ''p1'' ''s1'' [generatedWindow] = []"
    by blast+
  with r d e alone_windows show ?thesis
    by (simp add: generatedWindow_virtual generatedWindow_instant generatedWindow_end)
qed

section \<open>Claim C6: the groups behind the windows of the builder\<close>

lemma ceil_characterisation:
  fixes a b :: int
  assumes "0 < b"
  shows "a \<le> ((a + b - 1) div b) * b" "((a + b - 1) div b - 1) * b < a"
proof -
  define q where "q = (a + b - 1) div b"
  have "a + b - 1 < b * q + b" unfolding q_def by (rule int_div_upper[OF assms])
  then have "a - 1 < q * b" by (simp add: algebra_simps)
  then show "a \<le> q * b" by linarith
  have "b * q \<le> a + b - 1" unfolding q_def by (rule int_div_lower[OF assms])
  then show "(q - 1) * b < a" by (simp add: algebra_simps)
qed

text \<open>
  Claim C6. Whatever the engine, whose sort returns the elements of the array, every
  window that \<open>buildServiceWindowsFromBaseSlots\<close> emits lists in \<open>slot_ids\<close> the ids of a
  group of base slots of the input whose length is
  \<open>needed = Math.ceil(durationMinutes / slotStepMinutes)\<close>, which is positive (and, for a
  positive duration and step, the least number of steps that covers the duration); every
  slot of the group has \<open>is_available = true\<close>; for every two neighbours of the group
  luxon reads both \<open>start_time\<close> texts and, seen in the target zone, the two instants differ
  by exactly \<open>slotStepMinutes\<close>, so that for a positive step the second is after the
  first. An empty \<open>baseSlots\<close>, or \<open>needed\<close> exceeding the number of base slots, gives no
  window.
\<close>

theorem builder_window_groups:
  assumes "conforming engine"
  shows "(\<forall>ws w. buildServiceWindowsFromBaseSlots engine p = Inr ws \<longrightarrow> w \<in> set ws \<longrightarrow>
          (\<exists>grp needed. slot_ids w = map id' grp
             \<and> ceilDiv (durationMinutes p) (slotStepMinutes p) = Finite needed
             \<and> 0 < needed \<and> int (length grp) = needed
             \<and> (0 < durationMinutes p \<longrightarrow> 0 < slotStepMinutes p \<longrightarrow>
                   durationMinutes p \<le> needed * slotStepMinutes p
                 \<and> (needed - 1) * slotStepMinutes p < durationMinutes p)
             \<and> set grp \<subseteq> set (baseSlots p)
             \<and> (\<forall>s\<in>set grp. is_available s)
             \<and> (\<forall>k. Suc k < length grp \<longrightarrow>
                   (\<exists>a b. fromISO 0 (start_time (grp ! k)) = Some a
                      \<and> fromISO 0 (start_time (grp ! Suc k)) = Some b
                      \<and> localMillis (timezone p) b - localMillis (timezone p) a
                          = slotStepMinutes p * MS_PER_MINUTE
                      \<and> (0 < slotStepMinutes p \<longrightarrow> a < b)))))
       \<and> (baseSlots p = [] \<longrightarrow> buildServiceWindowsFromBaseSlots engine p = Inr [])
       \<and> (\<forall>needed. ceilDiv (durationMinutes p) (slotStepMinutes p) = Finite needed \<longrightarrow>
             int (length (baseSlots p)) < needed \<longrightarrow>
             buildServiceWindowsFromBaseSlots engine p = Inr [])
       \<and> (ceilDiv (durationMinutes p) (slotStepMinutes p) = PosInfinity \<longrightarrow>
             buildServiceWindowsFromBaseSlots engine p = Inr [])"
proof (intro conjI allI impI)
  fix ws w
  assume b: "buildServiceWindowsFromBaseSlots engine p = Inr ws" and w: "w \<in> set ws"
  from builder_window[OF b w] obtain grp needed where
    n: "ceilDiv (durationMinutes p) (slotStepMinutes p) = Finite needed"
    and pos: "0 < needed" and len: "int (length grp) = needed"
    and wg: "windowOfGroup p grp = Inr (Some w)"
    and sub: "set grp \<subseteq> set (sortedCopy engine (baseSlots p))"
    by blast
  from windowOfGroup_Some[OF wg] have av: "\<forall>s\<in>set grp. is_available s"
    and con: "isConsecutive (slotStepMinutes p) (map (\<lambda>s. fromISO 0 (start_time s)) grp)"
    and 1: "slot_ids w = map id' grp"
    by auto
  have 2: "0 < durationMinutes p \<longrightarrow> 0 < slotStepMinutes p \<longrightarrow>
      durationMinutes p \<le> needed * slotStepMinutes p
    \<and> (needed - 1) * slotStepMinutes p < durationMinutes p"
  proof (intro impI)
    assume d: "0 < durationMinutes p" and s: "0 < slotStepMinutes p"
    from ceilDiv_pos(1)[OF d s] n have
      "needed = (durationMinutes p + slotStepMinutes p - 1) div slotStepMinutes p" by simp
    with ceil_characterisation[OF s, of "durationMinutes p"]
    show "durationMinutes p \<le> needed * slotStepMinutes p
      \<and> (needed - 1) * slotStepMinutes p < durationMinutes p" by simp
  qed
  have 3: "set grp \<subseteq> set (baseSlots p)" using sub unfolding sortedCopy_set[OF assms] .
  have 5: "\<forall>k. Suc k < length grp \<longrightarrow>
      (\<exists>a b. fromISO 0 (start_time (grp ! k)) = Some a
         \<and> fromISO 0 (start_time (grp ! Suc k)) = Some b
         \<and> localMillis (timezone p) b - localMillis (timezone p) a
             = slotStepMinutes p * MS_PER_MINUTE
         \<and> (0 < slotStepMinutes p \<longrightarrow> a < b))"
  proof (intro allI impI)
    fix k assume k: "Suc k < length grp"
    then have "Suc k < length (map (\<lambda>s. fromISO 0 (start_time s)) grp)" by simp
    from isConsecutive_nth[OF con this] k obtain a b where
      a: "fromISO 0 (start_time (grp ! k)) = Some a"
      and b: "fromISO 0 (start_time (grp ! Suc k)) = Some b"
      and d: "b - a = slotStepMinutes p * MS_PER_MINUTE" by auto
    have "0 < slotStepMinutes p \<longrightarrow> a < b"
    proof
      assume "0 < slotStepMinutes p"
      with d have "0 < b - a" by (simp add: MS_PER_MINUTE_def)
      then show "a < b" by simp
    qed
    moreover from d have "localMillis (timezone p) b - localMillis (timezone p) a
        = slotStepMinutes p * MS_PER_MINUTE" unfolding localMillis_def by simp
    ultimately show "\<exists>a b. fromISO 0 (start_time (grp ! k)) = Some a
         \<and> fromISO 0 (start_time (grp ! Suc k)) = Some b
         \<and> localMillis (timezone p) b - localMillis (timezone p) a
             = slotStepMinutes p * MS_PER_MINUTE
         \<and> (0 < slotStepMinutes p \<longrightarrow> a < b)" using a b by blast
  qed
  from 1 n pos len 2 3 av 5
  show "\<exists>grp needed. slot_ids w = map id' grp
             \<and> ceilDiv (durationMinutes p) (slotStepMinutes p) = Finite needed
             \<and> 0 < needed \<and> int (length grp) = needed
             \<and> (0 < durationMinutes p \<longrightarrow> 0 < slotStepMinutes p \<longrightarrow>
                   durationMinutes p \<le> needed * slotStepMinutes p
                 \<and> (needed - 1) * slotStepMinutes p < durationMinutes p)
             \<and> set grp \<subseteq> set (baseSlots p)
             \<and> (\<forall>s\<in>set grp. is_available s)
             \<and> (\<forall>k. Suc k < length grp \<longrightarrow>
                   (\<exists>a b. fromISO 0 (start_time (grp ! k)) = Some a
                      \<and> fromISO 0 (start_time (grp ! Suc k)) = Some b
                      \<and> localMillis (timezone p) b - localMillis (timezone p) a
                          = slotStepMinutes p * MS_PER_MINUTE
                      \<and> (0 < slotStepMinutes p \<longrightarrow> a < b)))"
    by blast
next
  assume "baseSlots p = []"
  with sortedCopy_length[OF assms, of "baseSlots p"]
  show "buildServiceWindowsFromBaseSlots engine p = Inr []"
    by (simp add: buildServiceWindowsFromBaseSlots_def buildFromSorted_def)
next
  fix needed
  assume n: "ceilDiv (durationMinutes p) (slotStepMinutes p) = Finite needed"
    and short: "int (length (baseSlots p)) < needed"
  let ?slots = "sortedCopy engine (baseSlots p)"
  have "int (length ?slots) < needed"
    using short unfolding sortedCopy_length[OF assms] .
  from windowLoop_short[OF this, of 0 p "[]"] n
  show "buildServiceWindowsFromBaseSlots engine p = Inr []"
    by (simp add: buildServiceWindowsFromBaseSlots_def buildFromSorted_def
        del: windowLoop.simps)
next
  assume "ceilDiv (durationMinutes p) (slotStepMinutes p) = PosInfinity"
  then show "buildServiceWindowsFromBaseSlots engine p = Inr []"
    by (simp add: buildServiceWindowsFromBaseSlots_def buildFromSorted_def)
qed

theorem builder_window_groups_witness:
  "conforming referenceEngine
   \<and> buildServiceWindowsFromBaseSlots referenceEngine scenarioA = Inr [windowA]
   \<and> windowA \<in> set [windowA]
   \<and> 0 < durationMinutes scenarioA \<and> 0 < slotStepMinutes scenarioA
   \<and> (\<exists>grp. slot_ids windowA = map id' grp
        \<and> ceilDiv (durationMinutes scenarioA) (slotStepMinutes scenarioA) = Finite 4
        \<and> int (length grp) = 4
        \<and> durationMinutes scenarioA \<le> 4 * slotStepMinutes scenarioA
        \<and> (4 - 1) * slotStepMinutes scenarioA < durationMinutes scenarioA
        \<and> set grp \<subseteq> set (baseSlots scenarioA)
        \<and> (\<forall>s\<in>set grp. is_available s)
        \<and> (\<forall>k. Suc k < length grp \<longrightarrow>
              (\<exists>a b. fromISO 0 (start_time (grp ! k)) = Some a
                 \<and> fromISO 0 (start_time (grp ! Suc k)) = Some b
                 \<and> localMillis (timezone scenarioA) b - localMillis (timezone scenarioA) a
                     = slotStepMinutes scenarioA * MS_PER_MINUTE
                 \<and> a < b)))
   \<and> buildServiceWindowsFromBaseSlots referenceEngine unreadableStart = Inr [untimedWindow]
   \<and> untimedWindow \<in> set [untimedWindow]
   \<and> (\<exists>grp. slot_ids untimedWindow = map id' grp
        \<and> ceilDiv (durationMinutes unreadableStart) (slotStepMinutes unreadableStart) = Finite 1
        \<and> int (length grp) = 1
        \<and> set grp \<subseteq> set (baseSlots unreadableStart) \<and> (\<forall>s\<in>set grp. is_available s))
   \<and> baseSlots (scenarioA\<lparr>baseSlots := []\<rparr>) = []
   \<and> buildServiceWindowsFromBaseSlots referenceEngine (scenarioA\<lparr>baseSlots := []\<rparr>) = Inr []
   \<and> ceilDiv (durationMinutes (scenarioA\<lparr>durationMinutes := 75\<rparr>))
        (slotStepMinutes (scenarioA\<lparr>durationMinutes := 75\<rparr>)) = Finite 5
   \<and> int (length (baseSlots (scenarioA\<lparr>durationMinutes := 75\<rparr>))) < 5
   \<and> buildServiceWindowsFromBaseSlots referenceEngine (scenarioA\<lparr>durationMinutes := 75\<rparr>)
        = Inr []
   \<and> ceilDiv (durationMinutes (scenarioA\<lparr>slotStepMinutes := 0\<rparr>))
        (slotStepMinutes (scenarioA\<lparr>slotStepMinutes := 0\<rparr>)) = PosInfinity
   \<and> buildServiceWindowsFromBaseSlots referenceEngine (scenarioA\<lparr>slotStepMinutes := 0\<rparr>)
        = Inr []"
proof -
  note c = referenceEngine_conforming
  note t = builder_window_groups[OF c]
  have d: "0 < durationMinutes scenarioA" "0 < slotStepMinutes scenarioA"
    by (simp_all add: scenarioA_def)
  have e: "buildServiceWindowsFromBaseSlots referenceEngine scenarioA = Inr [windowA]"
    unfolding windowA_def by code_simp
  have m: "windowA \<in> set [windowA]" "untimedWindow \<in> set [untimedWindow]" by simp_all
  have nA: "ceilDiv (durationMinutes scenarioA) (slotStepMinutes scenarioA) = Finite 4"
    by (simp add: scenarioA_def ceilDiv_def)
  have nU: "ceilDiv (durationMinutes unreadableStart) (slotStepMinutes unreadableStart)
      = Finite 1" by (simp add: unreadableStart_def ceilDiv_def)
  have b0: "baseSlots (scenarioA\<lparr>baseSlots := []\<rparr>) = []" by simp
  have n5: "ceilDiv (durationMinutes (scenarioA\<lparr>durationMinutes := 75\<rparr>))
        (slotStepMinutes (scenarioA\<lparr>durationMinutes := 75\<rparr>)) = Finite 5"
    by (simp add: scenarioA_def ceilDiv_def)
  have s5: "int (length (baseSlots (scenarioA\<lparr>durationMinutes := 75\<rparr>))) < 5"
    by (simp add: scenarioA_def)
  have ni: "ceilDiv (durationMinutes (scenarioA\<lparr>slotStepMinutes := 0\<rparr>))
        (slotStepMinutes (scenarioA\<lparr>slotStepMinutes := 0\<rparr>)) = PosInfinity"
    by (simp add: scenarioA_def ceilDiv_def)
  from t[of scenarioA] e m(1) obtain grp needed where
    g: "slot_ids windowA = map id' grp"
      "ceilDiv (durationMinutes scenarioA) (slotStepMinutes scenarioA) = Finite needed"
      "int (length grp) = needed"
      "0 < durationMinutes scenarioA \<longrightarrow> 0 < slotStepMinutes scenarioA \<longrightarrow>
         durationMinutes scenarioA \<le> needed * slotStepMinutes scenarioA
       \<and> (needed - 1) * slotStepMinutes scenarioA < durationMinutes scenarioA"
      "set grp \<subseteq> set (baseSlots scenarioA)" "\<forall>s\<in>set grp. is_available s"
      "\<forall>k. Suc k < length grp \<longrightarrow>
              (\<exists>a b. fromISO 0 (start_time (grp ! k)) = Some a
                 \<and> fromISO 0 (start_time (grp ! Suc k)) = Some b
                 \<and> localMillis (timezone scenarioA) b - localMillis (timezone scenarioA) a
                     = slotStepMinutes scenarioA * MS_PER_MINUTE
                 \<and> (0 < slotStepMinutes scenarioA \<longrightarrow> a < b))"
    by blast
  from g(2) nA have n4: "needed = 4" by simp
  from g(4) d have b4: "durationMinutes scenarioA \<le> needed * slotStepMinutes scenarioA"
    "(needed - 1) * slotStepMinutes scenarioA < durationMinutes scenarioA" by blast+
  from g(7) d(2) have p4: "\<forall>k. Suc k < length grp \<longrightarrow>
              (\<exists>a b. fromISO 0 (start_time (grp ! k)) = Some a
                 \<and> fromISO 0 (start_time (grp ! Suc k)) = Some b
                 \<and> localMillis (timezone scenarioA) b - localMillis (timezone scenarioA) a
                     = slotStepMinutes scenarioA * MS_PER_MINUTE
                 \<and> a < b)" by blast
  from g(1,3,5,6) nA b4 p4 have 1:
    "\<exists>grp. slot_ids windowA = map id' grp
        \<and> ceilDiv (durationMinutes scenarioA) (slotStepMinutes scenarioA) = Finite 4
        \<and> int (length grp) = 4
        \<and> durationMinutes scenarioA \<le> 4 * slotStepMinutes scenarioA
        \<and> (4 - 1) * slotStepMinutes scenarioA < durationMinutes scenarioA
        \<and> set grp \<subseteq> set (baseSlots scenarioA)
        \<and> (\<forall>s\<in>set grp. is_available s)
        \<and> (\<forall>k. Suc k < length grp \<longrightarrow>
              (\<exists>a b. fromISO 0 (start_time (grp ! k)) = Some a
                 \<and> fromISO 0 (start_time (grp ! Suc k)) = Some b
                 \<and> localMillis (timezone scenarioA) b - localMillis (timezone scenarioA) a
                     = slotStepMinutes scenarioA * MS_PER_MINUTE
                 \<and> a < b))"
    unfolding n4 by blast
  from t[of unreadableStart] unreadableStart_result m(2) obtain grpU neededU where
    u: "slot_ids untimedWindow = map id' grpU"
      "ceilDiv (durationMinutes unreadableStart) (slotStepMinutes unreadableStart)
         = Finite neededU"
      "int (length grpU) = neededU"
      "set grpU \<subseteq> set (baseSlots unreadableStart)" "\<forall>s\<in>set grpU. is_available s"
    by blast
  from u(2) nU have n1: "neededU = 1" by simp
  from u(1,3,4,5) nU have 2:
    "\<exists>grp. slot_ids untimedWindow = map id' grp
        \<and> ceilDiv (durationMinutes unreadableStart) (slotStepMinutes unreadableStart) = Finite 1
        \<and> int (length grp) = 1
        \<and> set grp \<subseteq> set (baseSlots unreadableStart) \<and> (\<forall>s\<in>set grp. is_available s)"
    unfolding n1 by blast
  from t[of "scenarioA\<lparr>baseSlots := []\<rparr>"] b0 have 3:
    "buildServiceWindowsFromBaseSlots referenceEngine (scenarioA\<lparr>baseSlots := []\<rparr>) = Inr []"
    by blast
  from t[of "scenarioA\<lparr>durationMinutes := 75\<rparr>"] n5 s5 have 4:
    "buildServiceWindowsFromBaseSlots referenceEngine (scenarioA\<lparr>durationMinutes := 75\<rparr>)
       = Inr []" by blast
  from t[of "scenarioA\<lparr>slotStepMinutes := 0\<rparr>"] ni have 5:
    "buildServiceWindowsFromBaseSlots referenceEngine (scenarioA\<lparr>slotStepMinutes := 0\<rparr>)
       = Inr []" by blast
  from 1 2 3 4 5 c e m d unreadableStart_result b0 n5 s5 ni
  show ?thesis by (intro conjI)
qed

section \<open>Claim C7: the closing time\<close>




section \<open>Claim C8: texts of the same instant\<close>

text \<open>
  Claim C8. Let a persisted slot and a generated window carry start texts that denote the
  same UTC instant (whatever their notation: with or without milliseconds, \<open>Z\<close> or
  \<open>+00:00\<close>), the slot being the only row of that instant among the available slots (all
  rows of that instant carry its id), with a non-empty id. Then both texts normalise to
  the same key, the map of real ids holds the slot's id under that key, and the window
  is assigned that id.
\<close>

theorem same_instant_gets_real_id:
  assumes "slot \<in> set availableSlots"
    and "fromISO 0 (start_time slot) = Some t" and "fromISO 0 (start_time w) = Some t"
    and "id' slot \<noteq> []"
    and "\<forall>s\<in>set availableSlots. fromISO 0 (start_time s) = Some t \<longrightarrow> id' s = id' slot"
  shows "normalizeTime (start_time slot) = normalizeTime (start_time w)
    \<and> (\<exists>key. normalizeTime (start_time w) = Some key
          \<and> realSlotIds (Some availableSlots) key = Some (id' slot))
    \<and> withRealId (realSlotIds (Some availableSlots)) w = w\<lparr>slot_ids := [id' slot]\<rparr>"
proof -
  have n: "normalizeTime (start_time slot) = Some (toISO t)"
    "normalizeTime (start_time w) = Some (toISO t)"
    using assms(2,3) by (simp_all add: normalizeTime_def)
  have k: "realSlotIds (Some availableSlots) (toISO t) = Some (id' slot)"
    unfolding realSlotIds_def option.case
    using foldl_registerRealSlot_canonical[OF assms(5), of Map.empty] assms(1,2) by auto
  have "findRealId (realSlotIds (Some availableSlots)) (start_time w) = Some (id' slot)"
    unfolding findRealId_def n option.case k using assms(4)
    by (simp add: orElse_def truthy_def)
  then have "withRealId (realSlotIds (Some availableSlots)) w = w\<lparr>slot_ids := [id' slot]\<rparr>"
    unfolding withRealId_def using assms(4) by simp
  with n k show ?thesis by simp
qed

theorem same_instant_gets_real_id_witness:
  "persistedSlot \<in> set [persistedSlot]
   \<and> fromISO 0 (start_time persistedSlot) = Some 1769511600000
   \<and> fromISO 0 (start_time generatedWindow) = Some 1769511600000
   \<and> start_time persistedSlot \<noteq> start_time generatedWindow
   \<and> id' persistedSlot \<noteq> []
   \<and> normalizeTime (start_time persistedSlot) = normalizeTime (start_time generatedWindow)
   \<and> (\<exists>key. normalizeTime (start_time generatedWindow) = Some key
          \<and> realSlotIds (Some [persistedSlot]) key = Some (id' persistedSlot))
   \<and> withRealId (realSlotIds (Some [persistedSlot])) generatedWindow
        = generatedWindow\<lparr>slot_ids := [id' persistedSlot]\<rparr>"
proof -
  have m: "persistedSlot \<in> set [persistedSlot]" by simp
  have i: "id' persistedSlot \<noteq> []" by (simp add: persistedSlot_def)
  have d: "start_time persistedSlot \<noteq> start_time generatedWindow"
    by (simp add: persistedSlot_def generatedWindow_def)
  have u: "\<forall>s\<in>set [persistedSlot]. fromISO 0 (start_time s) = Some 1769511600000
             \<longrightarrow> id' s = id' persistedSlot" by simp
  from same_instant_gets_real_id[OF m persistedSlot_instant generatedWindow_instant i u]
    m persistedSlot_instant generatedWindow_instant i d
  show ?thesis by blast
qed


section \<open>Claim C9: the builder leaves its argument as it is\<close>

text \<open>
  Claim C9. \<open>buildServiceWindowsFromBaseSlots\<close> does not mutate its \<open>baseSlots\<close> argument.
  After the call on an array of the heap, that array holds the same references in the
  same order, every slot object has all its fields unchanged, so the array holds the same
  slots, and every array that existed before the call is unchanged: the sort is done on
  a copy, which is a new array. With an engine whose sort returns the elements of the
  array, the result is the one of the builder on the slots that the array holds.
\<close>

theorem builder_leaves_baseSlots:
  assumes "a < length (slotArrays h)"
  shows "slotArrays (snd (buildServiceWindowsOnHeap engine p a h)) ! a = slotArrays h ! a
    \<and> slotObjects (snd (buildServiceWindowsOnHeap engine p a h)) = slotObjects h
    \<and> slotsOf (snd (buildServiceWindowsOnHeap engine p a h)) a = slotsOf h a
    \<and> take (length (slotArrays h)) (slotArrays (snd (buildServiceWindowsOnHeap engine p a h)))
         = slotArrays h
    \<and> (conforming engine \<longrightarrow>
         fst (buildServiceWindowsOnHeap engine p a h)
           = buildServiceWindowsFromBaseSlots engine (p\<lparr>baseSlots := slotsOf h a\<rparr>))"
proof -
  let ?h' = "snd (buildServiceWindowsOnHeap engine p a h)"
  note o = buildServiceWindowsOnHeap_heap(1)[OF assms, of engine p]
  note t = buildServiceWindowsOnHeap_heap(2)[OF assms, of engine p]
  from assms have "take (length (slotArrays h)) (slotArrays ?h') ! a = slotArrays ?h' ! a"
    by simp
  then have n: "slotArrays ?h' ! a = slotArrays h ! a" unfolding t by simp
  then have "slotsOf ?h' a = slotsOf h a" unfolding slotsOf_def o by simp
  with n o t buildServiceWindowsOnHeap_result[OF _ assms, of engine p] show ?thesis by simp
qed

theorem builder_leaves_baseSlots_witness:
  "0 < length (slotArrays unsortedHeap)
   \<and> conforming referenceEngine
   \<and> slotArrays unsortedHeap = [[0, 1]]
   \<and> slotArrays (snd (buildServiceWindowsOnHeap referenceEngine scenario20 0 unsortedHeap))
        = [[0, 1], [1, 0]]
   \<and> slotArrays (snd (buildServiceWindowsOnHeap referenceEngine scenario20 0 unsortedHeap)) ! 0
        = slotArrays unsortedHeap ! 0
   \<and> slotObjects (snd (buildServiceWindowsOnHeap referenceEngine scenario20 0 unsortedHeap))
        = slotObjects unsortedHeap
   \<and> slotsOf (snd (buildServiceWindowsOnHeap referenceEngine scenario20 0 unsortedHeap)) 0
        = slotsOf unsortedHeap 0
   \<and> fst (buildServiceWindowsOnHeap referenceEngine scenario20 0 unsortedHeap) = Inr [window20]
   \<and> buildServiceWindowsFromBaseSlots referenceEngine
        (scenario20\<lparr>baseSlots := slotsOf unsortedHeap 0\<rparr>) = Inr [window20]"
proof -
  have l: "0 < length (slotArrays unsortedHeap)" by (simp add: unsortedHeap_def)
  have a: "slotArrays unsortedHeap = [[0, 1]]" by (simp add: unsortedHeap_def)
  from builder_leaves_baseSlots[OF l, of referenceEngine scenario20] l a
    referenceEngine_conforming unsortedHeap_arrays unsortedHeap_result
  show ?thesis by simp
qed

section \<open>Claim C10: the virtual slots of \<open>getAvailableSlots\<close>\<close>

text \<open>
  Claim C10. When no persisted available slot is in the requested range,
  \<open>getAvailableSlots\<close> returns the slots generated from the availabilities, and every such
  slot has \<open>is_available = true\<close>, the id \<open>'virtual-'\<close> followed by its UTC start text, an
  end exactly 15 minutes after its start (no duration of a service is read), and a start
  instant between \<open>from\<close> and \<open>to\<close>.
\<close>

theorem fallback_slots_are_virtual:
  assumes "availableSlotRows store params = Some []"
    and "getAvailableSlots store availabilities params = Inr slots"
    and "s \<in> set slots"
  shows "is_available s \<and> id' s = ''virtual-'' @ start_time s
    \<and> (\<exists>t fromDt toDt. start_time s = toISO t \<and> fromISO 0 (start_time s) = Some t
          \<and> fromISO 0 (end_time s) = Some (t + 15 * MS_PER_MINUTE)
          \<and> fromISO 0 (from' params) = Some fromDt \<and> fromISO 0 (to' params) = Some toDt
          \<and> fromDt \<le> t \<and> t \<le> toDt)"
proof -
  from assms(1,2) have "generateSlotsFromAvailabilities availabilities params = Inr slots"
    unfolding getAvailableSlots_def by (simp split: if_splits)
  from generateSlotsFromAvailabilities_emits[OF this assms(3)]
  obtain fromDt toDt t where f: "fromISO 0 (from' params) = Some fromDt"
    and u: "fromISO 0 (to' params) = Some toDt"
    and s: "s = \<lparr>start_time = toISO t, end_time = toISO (plusMinutes t 15),
            id' = ''virtual-'' @ toISO t,
            professional_id = professionalId params, is_available = True,
            service_id = orNull (serviceId params)\<rparr>"
    and r: "fromDt \<le> t" "t \<le> toDt"
    by blast
  have "fromISO 0 (end_time s) = Some (t + 15 * MS_PER_MINUTE)"
    unfolding s by (simp add: fromISO_toISO plusMinutes_def)
  moreover have "fromISO 0 (start_time s) = Some t" "start_time s = toISO t"
    unfolding s by (simp_all add: fromISO_toISO)
  moreover have "is_available s" "id' s = ''virtual-'' @ start_time s" unfolding s by simp_all
  ultimately show ?thesis using f u r by blast
qed

theorem fallback_slots_are_virtual_witness:
  "availableSlotRows emptyStore slotsRequest = Some []
   \<and> getAvailableSlots emptyStore tuesdayMorning slotsRequest = Inr [virtualSlot1, virtualSlot2]
   \<and> virtualSlot2 \<in> set [virtualSlot1, virtualSlot2]
   \<and> is_available virtualSlot2 \<and> id' virtualSlot2 = ''virtual-'' @ start_time virtualSlot2
   \<and> (\<exists>t fromDt toDt. start_time virtualSlot2 = toISO t
          \<and> fromISO 0 (start_time virtualSlot2) = Some t
          \<and> fromISO 0 (end_time virtualSlot2) = Some (t + 15 * MS_PER_MINUTE)
          \<and> fromISO 0 (from' slotsRequest) = Some fromDt
          \<and> fromISO 0 (to' slotsRequest) = Some toDt
          \<and> fromDt \<le> t \<and> t \<le> toDt)"
proof -
  have m: "virtualSlot2 \<in> set [virtualSlot1, virtualSlot2]" by simp
  from fallback_slots_are_virtual[OF slotsRequest_rows slotsRequest_result m]
    slotsRequest_rows slotsRequest_result m
  show ?thesis by blast
qed

end
